theory Spec2Isabelle
  imports Main "HOL-Library.Word" "HOL-Library.AList"
begin

section \<open>Shared types of the metadata service\<close>

text \<open>
  The error codes of \<^verbatim>\<open>cpp2::ErrorCode\<close> that the modelled functions produce, and the
  result codes of the key-value engine (\<^verbatim>\<open>kvstore::ResultCode\<close>).  The engine's success
  code is written \<open>ResultCode_SUCCEEDED\<close>, since \<open>SUCCEEDED\<close> names the error code.
\<close>

datatype ErrorCode =
    SUCCEEDED
  | E_NOT_FOUND
  | E_LEADER_CHANGED
  | E_STORE_FAILURE
  | E_CONFLICT
  | E_RPC_FAILURE
  | E_BLOCK_WRITE_FAILURE
  | E_BACKUP_FAILURE
  | E_BACKUP_BUILDING_INDEX
  | E_BACKUP_SPACE_NOT_FOUND
  | E_NO_HOSTS

datatype ResultCode =
    ResultCode_SUCCEEDED
  | ERR_KEY_NOT_FOUND
  | ERR_LEADER_CHANGED
  | ERR_UNKNOWN

section \<open>Index consistency checks of BaseProcessor\<close>

text \<open>
  The thrift structures read by \<^verbatim>\<open>indexCheck\<close> and \<^verbatim>\<open>checkIndexExist\<close>, with the
  fields the code reads.  \<open>fd_name\<close> is \<^verbatim>\<open>IndexFieldDef::get_name()\<close>.
\<close>

record ColumnDef =
  name :: string
  nullable :: bool

record IndexItem =
  index_name :: string
  get_fields :: "ColumnDef list"

record IndexFieldDef =
  fd_name :: string

datatype AlterSchemaOp = ADD | CHANGE | DROP | UNKNOWN

record Schema =
  columns :: "ColumnDef list"

record AlterSchemaItem =
  op :: AlterSchemaOp
  schema :: Schema

text \<open>
  The innermost loop of \<^verbatim>\<open>indexCheck\<close> over the altered columns: \<open>Some E_CONFLICT\<close> is
  the early \<^verbatim>\<open>return\<close>, \<open>None\<close> is the loop running to its end.  \<open>find\<close> is
  \<^verbatim>\<open>std::find_if\<close>.
\<close>

fun indexCheck_cols :: "ColumnDef list \<Rightarrow> ColumnDef list \<Rightarrow> ErrorCode option" where
  "indexCheck_cols indexCols [] = None"
| "indexCheck_cols indexCols (tCol # tagCols) =
     (if find (\<lambda>iCol. name tCol = name iCol) indexCols \<noteq> None then Some E_CONFLICT
      else indexCheck_cols indexCols tagCols)"

text \<open>The loop over the alter items, for one existing index.\<close>

fun indexCheck_items :: "IndexItem \<Rightarrow> AlterSchemaItem list \<Rightarrow> ErrorCode option" where
  "indexCheck_items index [] = None"
| "indexCheck_items index (tagItem # alterItems) =
     (if op tagItem = CHANGE \<or> op tagItem = DROP then
        (case indexCheck_cols (get_fields index) (columns (schema tagItem)) of
           Some e \<Rightarrow> Some e
         | None \<Rightarrow> indexCheck_items index alterItems)
      else indexCheck_items index alterItems)"

fun indexCheck :: "IndexItem list \<Rightarrow> AlterSchemaItem list \<Rightarrow> ErrorCode" where
  "indexCheck [] alterItems = SUCCEEDED"
| "indexCheck (index # items) alterItems =
     (case indexCheck_items index alterItems of
        Some e \<Rightarrow> e
      | None \<Rightarrow> indexCheck items alterItems)"

text \<open>
  \<^verbatim>\<open>std::vector::operator[]\<close> does not check its index.  A read at a position that the
  vector does not have is kept as the outcome \<open>OutOfRange i\<close> instead of a value.
\<close>

datatype fault = OutOfRange nat

definition at :: "'a list \<Rightarrow> nat \<Rightarrow> fault + 'a" where
  "at xs i = (if i < length xs then Inr (xs ! i) else Inl (OutOfRange i))"

text \<open>
  The \<^verbatim>\<open>for\<close> loop of \<^verbatim>\<open>checkIndexExist\<close>, from position \<open>i\<close>.  The loop condition
  bounds \<open>i\<close> by the size of \<open>flds\<close> only; \<^verbatim>\<open>item.get_fields()[i]\<close> is read unchecked.
  Leaving the loop (by \<^verbatim>\<open>break\<close> or by its condition) reaches \<^verbatim>\<open>return false\<close>.
\<close>

function checkIndexExist_loop :: "IndexFieldDef list \<Rightarrow> IndexItem \<Rightarrow> nat \<Rightarrow> fault + bool" where
  "checkIndexExist_loop flds item i =
     (if i < length flds then
        (case at (get_fields item) i of
           Inl e \<Rightarrow> Inl e
         | Inr c \<Rightarrow>
             if fd_name (flds ! i) \<noteq> name c then Inr False
             else if i = length flds - 1 then Inr True
             else checkIndexExist_loop flds item (i + 1))
      else Inr False)"
  by pat_completeness auto
termination
  by (relation "measure (\<lambda>(flds, item, i). length flds - i)") auto

definition checkIndexExist :: "IndexFieldDef list \<Rightarrow> IndexItem \<Rightarrow> fault + bool" where
  "checkIndexExist flds item =
     (if length flds = 0 then Inr True else checkIndexExist_loop flds item 0)"

section \<open>The key-value engine and the ID allocator\<close>

text \<open>
  Keys and values are \<^verbatim>\<open>std::string\<close>s, that is byte strings: a \<open>char\<close> is one byte.
  The metadata partition is an association list of key-value pairs.  The sources have
  the engine's interface (\<^verbatim>\<open>KVStore\<close>) and not its implementation: each call gets the
  result code the engine reports for it as an argument, so that every failure path of a
  caller can be taken.
\<close>

type_synonym KV = "string \<times> string"

type_synonym int32 = "32 word"

text \<open>
  Modelled from the spec: \<^verbatim>\<open>MetaCommon::to\<close> is not among the sources.  The spec maps
  the engine's \<^verbatim>\<open>SUCCEEDED\<close>, \<^verbatim>\<open>ERR_KEY_NOT_FOUND\<close> and \<^verbatim>\<open>ERR_LEADER_CHANGED\<close> to
  their counterparts and everything else to a generic store failure.
\<close>

fun MetaCommon_to :: "ResultCode \<Rightarrow> ErrorCode" where
  "MetaCommon_to ResultCode_SUCCEEDED = SUCCEEDED"
| "MetaCommon_to ERR_KEY_NOT_FOUND = E_NOT_FOUND"
| "MetaCommon_to ERR_LEADER_CHANGED = E_LEADER_CHANGED"
| "MetaCommon_to ERR_UNKNOWN = E_STORE_FAILURE"

text \<open>
  \<^verbatim>\<open>KVStore::get\<close>: \<open>rc\<close> is the engine's verdict on serving the read; a served read
  finds the key or reports \<^verbatim>\<open>ERR_KEY_NOT_FOUND\<close>.
\<close>

definition kv_get :: "ResultCode \<Rightarrow> KV list \<Rightarrow> string \<Rightarrow> ResultCode \<times> string" where
  "kv_get rc store key =
     (if rc \<noteq> ResultCode_SUCCEEDED then (rc, [])
      else case map_of store key of
             None \<Rightarrow> (ERR_KEY_NOT_FOUND, [])
           | Some v \<Rightarrow> (ResultCode_SUCCEEDED, v))"

text \<open>
  \<^verbatim>\<open>KVStore::asyncMultiPut\<close> followed by the wait for its callback: \<open>rc\<close> is the code the
  callback receives.  A put that does not succeed leaves the partition as it was.
\<close>

definition kv_multiPut :: "ResultCode \<Rightarrow> KV list \<Rightarrow> KV list \<Rightarrow> KV list" where
  "kv_multiPut rc store data =
     (if rc = ResultCode_SUCCEEDED then foldl (\<lambda>s (k, v). AList.update k v s) store data
      else store)"

text \<open>
  \<^verbatim>\<open>std::string(reinterpret_cast<const char*>(&id), sizeof(id))\<close>: the four bytes of an
  \<^verbatim>\<open>int32_t\<close>, least significant first.
\<close>

definition int32_bytes :: "int32 \<Rightarrow> string" where
  "int32_bytes v = map (\<lambda>k. char_of (drop_bit (8 * k) (unat v))) [0, 1, 2, 3]"

text \<open>
  \<^verbatim>\<open>*reinterpret_cast<const int32_t*>(val.c_str())\<close>: the first four bytes of the value,
  least significant first.  A value with fewer than four bytes has no such read
  (\<open>None\<close>).
\<close>

definition read_int32 :: "string \<Rightarrow> int32 option" where
  "read_int32 val =
     (if length val < 4 then None
      else Some (word_of_nat (of_char (val ! 0) + 256 * of_char (val ! 1)
                   + 65536 * of_char (val ! 2) + 16777216 * of_char (val ! 3))))"

definition kIdKey :: string where
  "kIdKey = ''__id__''"

text \<open>
  \<^verbatim>\<open>BaseProcessor::autoIncrementId\<close>, with the codes the engine reports for the read
  (\<open>getRc\<close>) and for the write (\<open>putRc\<close>).  The result is the returned
  \<^verbatim>\<open>ErrorOr<ErrorCode, int32_t>\<close> and the partition afterwards; \<open>None\<close> is the read of a
  stored value that is too short to hold an \<^verbatim>\<open>int32_t\<close>.  The increment is the
  two's-complement one of the machine.  The id lock is held for the whole call; calls
  are modelled one after the other.
\<close>

definition autoIncrementId ::
  "ResultCode \<Rightarrow> ResultCode \<Rightarrow> KV list \<Rightarrow> (ErrorCode + int32) option \<times> KV list" where
  "autoIncrementId getRc putRc store =
     (let (ret, val) = kv_get getRc store kIdKey in
      if ret \<noteq> ResultCode_SUCCEEDED \<and> ret \<noteq> ERR_KEY_NOT_FOUND
      then (Some (Inl (MetaCommon_to ret)), store)
      else
        case (if ret \<noteq> ResultCode_SUCCEEDED then Some 1
              else map_option (\<lambda>v. v + 1) (read_int32 val)) of
          None \<Rightarrow> (None, store)
        | Some newId \<Rightarrow>
            let store' = kv_multiPut putRc store [(kIdKey, int32_bytes newId)] in
            if putRc \<noteq> ResultCode_SUCCEEDED then (Some (Inl (MetaCommon_to putRc)), store')
            else (Some (Inr newId), store'))"

text \<open>
  \<open>n\<close> calls of \<^verbatim>\<open>autoIncrementId\<close> one after the other, each served by the engine:
  the ids returned, in order, and the partition after the last call.
\<close>

fun autoIncrementId_calls :: "nat \<Rightarrow> KV list \<Rightarrow> (ErrorCode + int32) option list \<times> KV list" where
  "autoIncrementId_calls 0 store = ([], store)"
| "autoIncrementId_calls (Suc n) store =
     (let (r, store') = autoIncrementId ResultCode_SUCCEEDED ResultCode_SUCCEEDED store;
          (rs, store'') = autoIncrementId_calls n store'
      in (r # rs, store''))"

section \<open>The index lookup planner\<close>

subsection \<open>Filter expressions and isOutsideIndex\<close>

text \<open>
  The expression classes come from outside the repository's sources.  The model has
  one constructor for each class that \<^verbatim>\<open>isOutsideIndex\<close> casts to, carrying the kinds
  that the \<^verbatim>\<open>switch\<close> sends to that cast, and one constructor for a node of any other
  kind (the \<^verbatim>\<open>default\<close> branch) with the sub-expressions such a node has: an
  arithmetic or unary operator, a function call, a relational or logical operator of
  a kind the \<^verbatim>\<open>switch\<close> does not list, a constant or a property of another kind (no
  sub-expression).
\<close>

datatype LogicalKind = kLogicalOr | kLogicalAnd

datatype RelationalKind =
  kRelLE | kRelIn | kRelGE | kRelEQ | kRelLT | kRelGT | kRelNE | kRelNotIn

datatype PropertyKind =
  kEdgeSrc | kEdgeType | kEdgeRank | kEdgeDst | kTagProperty | kEdgeProperty

datatype Expression =
    LogicalExpression LogicalKind "Expression list"
  | RelationalExpression RelationalKind Expression Expression
  | PropertyExpression PropertyKind string
  | OtherExpression "Expression list"

text \<open>
  The reserved property names \<^verbatim>\<open>kVid\<close>, \<^verbatim>\<open>kTag\<close>, \<^verbatim>\<open>kSrc\<close>, \<^verbatim>\<open>kType\<close>, \<^verbatim>\<open>kRank\<close>
  and \<^verbatim>\<open>kDst\<close> are constants of the common library, which is not among the sources;
  they are given the library's values.
\<close>

definition kVid :: string where "kVid = ''_vid''"
definition kTag :: string where "kTag = ''_tag''"
definition kSrc :: string where "kSrc = ''_src''"
definition kType :: string where "kType = ''_type''"
definition kRank :: string where "kRank = ''_rank''"
definition kDst :: string where "kDst = ''_dst''"

definition propsInEdgeKey :: "string list" where
  "propsInEdgeKey = [kSrc, kType, kRank, kDst]"

text \<open>
  \<^verbatim>\<open>LookupBaseProcessor::isOutsideIndex\<close>.  \<open>isOutsideIndex_operands\<close> is the loop over
  the operands of a logical expression, which returns at the first operand that is
  outside.
\<close>

fun isOutsideIndex :: "Expression \<Rightarrow> IndexItem \<Rightarrow> bool"
  and isOutsideIndex_operands :: "Expression list \<Rightarrow> IndexItem \<Rightarrow> bool" where
  "isOutsideIndex (LogicalExpression k operands) index = isOutsideIndex_operands operands index"
| "isOutsideIndex (RelationalExpression k left right) index =
     (if isOutsideIndex left index then True
      else if isOutsideIndex right index then True
      else False)"
| "isOutsideIndex (PropertyExpression k propName) index =
     (if k = kTagProperty \<or> k = kEdgeProperty
      then find (\<lambda>f. name f = propName) (get_fields index) = None
      else propName \<notin> set propsInEdgeKey)"
| "isOutsideIndex (OtherExpression es) index = False"
| "isOutsideIndex_operands [] index = False"
| "isOutsideIndex_operands (expr # operands) index =
     (if isOutsideIndex expr index then True else isOutsideIndex_operands operands index)"

text \<open>
  The property leaves of an expression, with their kinds: \<open>all_props\<close> lists every leaf
  that occurs anywhere in the expression; \<open>reached_props\<close> lists the leaves that are
  reached from the root through the operands of logical And/Or nodes and the two sides
  of the eight relational operators only.
\<close>

fun all_props :: "Expression \<Rightarrow> (PropertyKind \<times> string) list" where
  "all_props (LogicalExpression k operands) = concat (map all_props operands)"
| "all_props (RelationalExpression k left right) = all_props left @ all_props right"
| "all_props (PropertyExpression k propName) = [(k, propName)]"
| "all_props (OtherExpression es) = concat (map all_props es)"

fun reached_props :: "Expression \<Rightarrow> (PropertyKind \<times> string) list" where
  "reached_props (LogicalExpression k operands) = concat (map reached_props operands)"
| "reached_props (RelationalExpression k left right) = reached_props left @ reached_props right"
| "reached_props (PropertyExpression k propName) = [(k, propName)]"
| "reached_props (OtherExpression es) = []"

text \<open>What the claim asks of one property leaf, for an index.\<close>

definition prop_inside :: "IndexItem \<Rightarrow> PropertyKind \<times> string \<Rightarrow> bool" where
  "prop_inside index kp =
     (case kp of (k, propName) \<Rightarrow>
        if k = kTagProperty \<or> k = kEdgeProperty
        then propName \<in> name ` set (get_fields index)
        else propName \<in> {kSrc, kType, kRank, kDst})"

subsection \<open>The plan and its builders\<close>

text \<open>
  A plan node is created by \<^verbatim>\<open>std::make_unique\<close> and referred to by its address;
  \<open>node_id\<close> stands for the address and is the number of the allocation within one
  \<^verbatim>\<open>buildPlan\<close>.  A node keeps its type and the nodes handed to \<^verbatim>\<open>addDependency\<close>, in
  order.  What the constructors store for the later execution (plan context, column
  hints, schemas, result set, expression context) is not read by \<^verbatim>\<open>buildPlan\<close> and is
  left out.
\<close>

datatype NodeType =
    AggregateNode | DeDupNode | IndexScanNode | IndexEdgeNode | IndexVertexNode
  | IndexFilterNode | IndexOutputNode

record PlanNode =
  node_id :: nat
  node_type :: NodeType
  dependencies :: "nat list"

definition make_unique :: "nat \<Rightarrow> NodeType \<Rightarrow> PlanNode" where
  "make_unique a t = \<lparr>node_id = a, node_type = t, dependencies = []\<rparr>"

definition addDependency :: "PlanNode \<Rightarrow> PlanNode \<Rightarrow> PlanNode" where
  "addDependency node dep = node\<lparr>dependencies := dependencies node @ [node_id dep]\<rparr>"

text \<open>
  The four builders.  Each takes the number of the next allocation and the plan (the
  nodes handed to \<^verbatim>\<open>plan.addNode\<close> so far), and gives the output node it returns, the
  plan and the number of the next allocation afterwards.  A builder never returns a
  null pointer; the result is an option so that the null check of \<^verbatim>\<open>buildPlan\<close> has its
  branch.
\<close>

definition buildPlanBasic :: "nat \<Rightarrow> PlanNode list \<Rightarrow> PlanNode option \<times> PlanNode list \<times> nat" where
  "buildPlanBasic a plan =
     (let indexScan = make_unique a IndexScanNode;
          output = make_unique (a + 1) IndexOutputNode;
          output = addDependency output indexScan;
          plan = plan @ [indexScan]
      in (Some output, plan, a + 2))"

definition buildPlanWithData ::
  "bool \<Rightarrow> nat \<Rightarrow> PlanNode list \<Rightarrow> PlanNode option \<times> PlanNode list \<times> nat" where
  "buildPlanWithData isEdge a plan =
     (let indexScan = make_unique a IndexScanNode in
      if isEdge then
        (let edge = make_unique (a + 1) IndexEdgeNode;
             edge = addDependency edge indexScan;
             output = make_unique (a + 2) IndexOutputNode;
             output = addDependency output edge;
             plan = plan @ [indexScan];
             plan = plan @ [edge]
         in (Some output, plan, a + 3))
      else
        (let vertex = make_unique (a + 1) IndexVertexNode;
             vertex = addDependency vertex indexScan;
             output = make_unique (a + 2) IndexOutputNode;
             output = addDependency output vertex;
             plan = plan @ [indexScan];
             plan = plan @ [vertex]
         in (Some output, plan, a + 3)))"

definition buildPlanWithFilter :: "nat \<Rightarrow> PlanNode list \<Rightarrow> PlanNode option \<times> PlanNode list \<times> nat" where
  "buildPlanWithFilter a plan =
     (let indexScan = make_unique a IndexScanNode;
          filterNode = make_unique (a + 1) IndexFilterNode;
          filterNode = addDependency filterNode indexScan;
          output = make_unique (a + 2) IndexOutputNode;
          output = addDependency output filterNode;
          plan = plan @ [indexScan];
          plan = plan @ [filterNode]
      in (Some output, plan, a + 3))"

definition buildPlanWithDataAndFilter ::
  "bool \<Rightarrow> nat \<Rightarrow> PlanNode list \<Rightarrow> PlanNode option \<times> PlanNode list \<times> nat" where
  "buildPlanWithDataAndFilter isEdge a plan =
     (let indexScan = make_unique a IndexScanNode in
      if isEdge then
        (let edge = make_unique (a + 1) IndexEdgeNode;
             edge = addDependency edge indexScan;
             filterNode = make_unique (a + 2) IndexFilterNode;
             filterNode = addDependency filterNode edge;
             output = make_unique (a + 3) IndexOutputNode;
             output = addDependency output filterNode;
             plan = plan @ [indexScan];
             plan = plan @ [edge];
             plan = plan @ [filterNode]
         in (Some output, plan, a + 4))
      else
        (let vertex = make_unique (a + 1) IndexVertexNode;
             vertex = addDependency vertex indexScan;
             filterNode = make_unique (a + 2) IndexFilterNode;
             filterNode = addDependency filterNode vertex;
             output = make_unique (a + 3) IndexOutputNode;
             output = addDependency output filterNode;
             plan = plan @ [indexScan];
             plan = plan @ [vertex];
             plan = plan @ [filterNode]
         in (Some output, plan, a + 4)))"

subsection \<open>buildPlan\<close>

type_synonym IndexID = int

text \<open>
  An index query context: \<open>ctx_filter\<close> is the optional \<^verbatim>\<open>filter\<close> field, \<open>None\<close> when
  it is not set.
\<close>

record IndexQueryContext =
  index_id :: IndexID
  column_hints :: "string list"
  ctx_filter :: "string option"

text \<open>
  What \<^verbatim>\<open>buildPlan\<close> reads of the processor after \<^verbatim>\<open>requestCheck\<close> (the members
  \<^verbatim>\<open>planContext_->isEdge_\<close>, \<^verbatim>\<open>schemas_\<close>, \<^verbatim>\<open>yieldCols_\<close>, \<^verbatim>\<open>contexts_\<close>), and of the
  environment: the index manager's two lookups (\<open>None\<close> for a status that is not ok)
  and \<^verbatim>\<open>Expression::decode\<close>, which are outside the sources.
\<close>

record LookupProcessor =
  isEdge :: bool
  getEdgeIndex :: "IndexID \<Rightarrow> IndexItem option"
  getTagIndex :: "IndexID \<Rightarrow> IndexItem option"
  schemas_empty :: bool
  yieldCols :: "string list"
  contexts :: "IndexQueryContext list"
  decode :: "string \<Rightarrow> Expression"

datatype Status = IndexNotFound | Error string

definition propsInKey :: "string list" where
  "propsInKey = [kVid, kTag, kSrc, kType, kRank, kDst]"

text \<open>
  The loop over \<^verbatim>\<open>yieldCols_\<close> that sets \<^verbatim>\<open>needData\<close>: \<^verbatim>\<open>continue\<close> on a key column,
  \<^verbatim>\<open>break\<close> with \<^verbatim>\<open>needData = true\<close> at the first column that is no index field.
\<close>

fun yield_needs_data :: "string list \<Rightarrow> ColumnDef list \<Rightarrow> bool" where
  "yield_needs_data [] indexFields = False"
| "yield_needs_data (yieldCol # rest) indexFields =
     (if yieldCol \<in> set propsInKey then yield_needs_data rest indexFields
      else if find (\<lambda>columnDef. yieldCol = name columnDef) indexFields = None then True
      else yield_needs_data rest indexFields)"

text \<open>
  The state of the loop over the contexts: the number of the next allocation, the
  plan, the \<^verbatim>\<open>DeDupNode\<close> (which is added to the plan after the loop), \<^verbatim>\<open>filterId\<close>, and
  \<^verbatim>\<open>filterItems_\<close> with, for each filter id, whether its expression context is the one
  that knows the schema, and the decoded filter.
\<close>

record BuildState =
  next_alloc :: nat
  plan_nodes :: "PlanNode list"
  deDup :: PlanNode
  filterId :: nat
  filterItems :: "(nat \<times> bool \<times> Expression) list"

definition has_filter :: "IndexQueryContext \<Rightarrow> bool" where
  "has_filter ctx = (case ctx_filter ctx of Some f \<Rightarrow> f \<noteq> [] | None \<Rightarrow> False)"

definition get_filter :: "IndexQueryContext \<Rightarrow> string" where
  "get_filter ctx = (case ctx_filter ctx of Some f \<Rightarrow> f | None \<Rightarrow> [])"

text \<open>The body of the loop of \<^verbatim>\<open>buildPlan\<close> for one context.\<close>

definition buildPlan_ctx :: "LookupProcessor \<Rightarrow> BuildState \<Rightarrow> IndexQueryContext \<Rightarrow> Status + BuildState" where
  "buildPlan_ctx p st ctx =
     (let indexId = index_id ctx;
          needFilter = has_filter ctx;
          index = (if isEdge p then getEdgeIndex p indexId else getTagIndex p indexId)
      in case index of
        None \<Rightarrow> Inl IndexNotFound
      | Some indexItem \<Rightarrow>
        (let fields = get_fields indexItem;
             hasNullableCol = list_ex nullable fields;
             needData = yield_needs_data (yieldCols p) fields;
             isFieldsOutsideIndex =
               (has_filter ctx \<and> isOutsideIndex (decode p (get_filter ctx)) indexItem);
             needData = (if isFieldsOutsideIndex then True else needData);
             needFilter = (if isFieldsOutsideIndex then True else needFilter);
             a = next_alloc st;
             plan = plan_nodes st
         in case
              (if \<not> needData \<and> \<not> needFilter then
                 Inr (buildPlanBasic a plan, filterId st, filterItems st)
               else if needData \<and> \<not> needFilter then
                 Inr (buildPlanWithData (isEdge p) a plan, filterId st, filterItems st)
               else if \<not> needData \<and> needFilter then
                 (let expr = decode p (get_filter ctx);
                      items = filterItems st @ [(filterId st, False, expr)]
                  in Inr (buildPlanWithFilter a plan, filterId st + 1, items))
               else
                 (let expr = decode p (get_filter ctx) in
                  if schemas_empty p then Inl (Error ''Schema not found'')
                  else
                    (let items = filterItems st @ [(filterId st, True, expr)]
                     in Inr (buildPlanWithDataAndFilter (isEdge p) a plan,
                             filterId st + 1, items))))
            of
              Inl e \<Rightarrow> Inl e
            | Inr ((out, plan, a), fid, items) \<Rightarrow>
                (case out of
                   None \<Rightarrow> Inl (Error ''Index scan plan error'')
                 | Some outNode \<Rightarrow>
                     Inr \<lparr>next_alloc = a,
                          plan_nodes = plan @ [outNode],
                          deDup = addDependency (deDup st) outNode,
                          filterId = fid,
                          filterItems = items\<rparr>)))"

fun buildPlan_loop :: "LookupProcessor \<Rightarrow> BuildState \<Rightarrow> IndexQueryContext list \<Rightarrow> Status + BuildState" where
  "buildPlan_loop p st [] = Inr st"
| "buildPlan_loop p st (ctx # ctxs) =
     (case buildPlan_ctx p st ctx of
        Inl e \<Rightarrow> Inl e
      | Inr st' \<Rightarrow> buildPlan_loop p st' ctxs)"

text \<open>
  \<^verbatim>\<open>LookupBaseProcessor::buildPlan\<close>: the plan's nodes in the order of
  \<^verbatim>\<open>plan.addNode\<close>, or the error status.
\<close>

definition buildPlan :: "LookupProcessor \<Rightarrow> Status + PlanNode list" where
  "buildPlan p =
     (let IndexAggr = make_unique 0 AggregateNode;
          deDupNode = make_unique 1 DeDupNode;
          st = \<lparr>next_alloc = 2, plan_nodes = [], deDup = deDupNode, filterId = 0,
                filterItems = []\<rparr>
      in case buildPlan_loop p st (contexts p) of
        Inl e \<Rightarrow> Inl e
      | Inr st' \<Rightarrow>
          (let IndexAggr = addDependency IndexAggr (deDup st');
               plan = plan_nodes st' @ [deDup st'];
               plan = plan @ [IndexAggr]
           in Inr plan))"

subsection \<open>The spec's plan shapes\<close>

text \<open>
  \<open>needData\<close> and \<open>needFilter\<close> as the spec defines them: \<open>needData\<close> holds iff a return
  column is neither a key column nor an index field, or the filter refers to a
  property outside the index; \<open>needFilter\<close> holds iff a non-empty filter is present,
  and is promoted to true when \<^verbatim>\<open>isOutsideIndex\<close> finds a referent outside the index.
\<close>

definition outside_spec :: "LookupProcessor \<Rightarrow> IndexQueryContext \<Rightarrow> IndexItem \<Rightarrow> bool" where
  "outside_spec p ctx index =
     (case ctx_filter ctx of
        Some f \<Rightarrow> f \<noteq> [] \<and> isOutsideIndex (decode p f) index
      | None \<Rightarrow> False)"

definition needData_spec :: "LookupProcessor \<Rightarrow> IndexQueryContext \<Rightarrow> IndexItem \<Rightarrow> bool" where
  "needData_spec p ctx index =
     ((\<exists>c\<in>set (yieldCols p).
         c \<notin> {kVid, kTag, kSrc, kType, kRank, kDst} \<and> c \<notin> name ` set (get_fields index))
      \<or> outside_spec p ctx index)"

definition needFilter_spec :: "LookupProcessor \<Rightarrow> IndexQueryContext \<Rightarrow> IndexItem \<Rightarrow> bool" where
  "needFilter_spec p ctx index =
     ((case ctx_filter ctx of Some f \<Rightarrow> f \<noteq> [] | None \<Rightarrow> False) \<or> outside_spec p ctx index)"

text \<open>The four shapes of the claim, from the scan node to the output node.\<close>

definition fetch_node :: "bool \<Rightarrow> NodeType" where
  "fetch_node edge = (if edge then IndexEdgeNode else IndexVertexNode)"

definition spec_chain :: "bool \<Rightarrow> bool \<Rightarrow> bool \<Rightarrow> NodeType list" where
  "spec_chain edge needData needFilter =
     (if \<not> needData \<and> \<not> needFilter then [IndexScanNode, IndexOutputNode]
      else if needData \<and> \<not> needFilter then [IndexScanNode, fetch_node edge, IndexOutputNode]
      else if \<not> needData \<and> needFilter then [IndexScanNode, IndexFilterNode, IndexOutputNode]
      else [IndexScanNode, fetch_node edge, IndexFilterNode, IndexOutputNode])"

text \<open>
  Reading a plan.  \<open>node_at\<close> finds the node with a given address.  \<open>chain_to\<close> follows
  the dependency edges upstream from a node and lists the types on the way, first
  node first: it is \<open>None\<close> when a node has more than one dependency, when an address
  is not in the plan, or when the path is longer than \<open>fuel\<close>.  \<open>consumers\<close> are the
  nodes that depend on a given node.
\<close>

definition node_at :: "PlanNode list \<Rightarrow> nat \<Rightarrow> PlanNode option" where
  "node_at plan i = find (\<lambda>n. node_id n = i) plan"

fun chain_to :: "nat \<Rightarrow> PlanNode list \<Rightarrow> nat \<Rightarrow> NodeType list option" where
  "chain_to 0 plan i = None"
| "chain_to (Suc fuel) plan i =
     (case node_at plan i of
        None \<Rightarrow> None
      | Some n \<Rightarrow>
          (case dependencies n of
             [] \<Rightarrow> Some [node_type n]
           | [d] \<Rightarrow> map_option (\<lambda>ts. ts @ [node_type n]) (chain_to fuel plan d)
           | d # d' # ds \<Rightarrow> None))"

definition consumers :: "PlanNode list \<Rightarrow> nat \<Rightarrow> PlanNode list" where
  "consumers plan i = filter (\<lambda>n. i \<in> set (dependencies n)) plan"

text \<open>The index that \<^verbatim>\<open>buildPlan\<close> looks up for a context.\<close>

definition index_of :: "LookupProcessor \<Rightarrow> IndexQueryContext \<Rightarrow> IndexItem option" where
  "index_of p ctx =
     (if isEdge p then getEdgeIndex p (index_id ctx) else getTagIndex p (index_id ctx))"

text \<open>
  The layout of the plan's nodes for a list of chains: the nodes of a chain have
  consecutive addresses and each depends on the one before it.
\<close>

fun chain_from :: "nat \<Rightarrow> nat list \<Rightarrow> NodeType list \<Rightarrow> PlanNode list" where
  "chain_from a deps [] = []"
| "chain_from a deps (t # ts) =
     \<lparr>node_id = a, node_type = t, dependencies = deps\<rparr> # chain_from (Suc a) [a] ts"

fun layout :: "nat \<Rightarrow> NodeType list list \<Rightarrow> PlanNode list" where
  "layout a [] = []"
| "layout a (ts # tss) = chain_from a [] ts @ layout (a + length ts) tss"

fun outs :: "nat \<Rightarrow> NodeType list list \<Rightarrow> nat list" where
  "outs a [] = []"
| "outs a (ts # tss) = (a + length ts - 1) # outs (a + length ts) tss"

text \<open>
  The chain the claim gives for a context: the shape for the spec's \<open>needData\<close> and
  \<open>needFilter\<close> of the context and its index.
\<close>

definition ctx_chain :: "LookupProcessor \<Rightarrow> IndexQueryContext \<Rightarrow> NodeType list" where
  "ctx_chain p ctx =
     (case index_of p ctx of
        Some index \<Rightarrow> spec_chain (isEdge p) (needData_spec p ctx index) (needFilter_spec p ctx index)
      | None \<Rightarrow> [])"

section \<open>Metadata keys, prefix scans and removals\<close>

text \<open>
  A \<^verbatim>\<open>GraphSpaceID\<close> is an \<^verbatim>\<open>int32_t\<close>; it is kept as the integer it denotes, so that
  the order of a \<^verbatim>\<open>std::map\<close> over space ids is the order of the integers.
\<close>

type_synonym GraphSpaceID = int

datatype SnapshotStatus = VALID | INVALID

text \<open>
  \<^verbatim>\<open>MetaServiceUtils\<close>, \<^verbatim>\<open>NetworkUtils::toHostsStr\<close> and the last-update-time key are
  not among the sources.  The functions of the key codec that the modelled code calls
  are the fields of a record; every function below takes the codec as its first
  argument and every theorem holds for every codec.  \<open>spaceId_of_key\<close> is
  \<^verbatim>\<open>MetaServiceUtils::spaceId\<close>.  \<open>'h\<close> is the type of host
  addresses (\<^verbatim>\<open>HostAddr\<close>), which the code compares and orders.
\<close>

record 'h MetaServiceUtils =
  partPrefix_all :: string
  partPrefix :: "GraphSpaceID \<Rightarrow> string"
  parsePartVal :: "string \<Rightarrow> 'h list"
  parsePartKeySpaceId :: "string \<Rightarrow> GraphSpaceID"
  indexSpaceKey :: "string \<Rightarrow> string"
  spaceKey :: "GraphSpaceID \<Rightarrow> string"
  spacePrefix :: string
  spaceId_of_key :: "string \<Rightarrow> GraphSpaceID"
  parseSpace :: "string \<Rightarrow> string"
  roleSpacePrefix :: "GraphSpaceID \<Rightarrow> string"
  listenerPrefix :: "GraphSpaceID \<Rightarrow> string"
  statisKey :: "GraphSpaceID \<Rightarrow> string"
  rebuildIndexStatusPrefix :: string
  snapshotKey :: "string \<Rightarrow> string"
  snapshotVal :: "SnapshotStatus \<Rightarrow> string \<Rightarrow> string"
  toHostsStr :: "'h list \<Rightarrow> string"
  lastUpdateTimeKey :: string
  lastUpdateTimeVal :: "int \<Rightarrow> string"

definition starts_with :: "string \<Rightarrow> string \<Rightarrow> bool" where
  "starts_with p key = (take (length p) key = p)"

text \<open>
  \<^verbatim>\<open>KVStore::prefix\<close>: the rows whose key starts with the prefix, in the engine's order
  of iteration, or the engine's code when the scan is not served.
\<close>

definition kv_prefix :: "ResultCode \<Rightarrow> KV list \<Rightarrow> string \<Rightarrow> ResultCode + KV list" where
  "kv_prefix rc store p =
     (if rc \<noteq> ResultCode_SUCCEEDED then Inl rc
      else Inr (filter (\<lambda>kv. starts_with p (fst kv)) store))"

text \<open>
  \<^verbatim>\<open>KVStore::asyncMultiRemove\<close> followed by the wait for its callback, as for
  \<open>kv_multiPut\<close>.
\<close>

definition kv_multiRemove :: "ResultCode \<Rightarrow> KV list \<Rightarrow> string list \<Rightarrow> KV list" where
  "kv_multiRemove rc store keys =
     (if rc = ResultCode_SUCCEEDED then filter (\<lambda>kv. fst kv \<notin> set keys) store else store)"

text \<open>\<^verbatim>\<open>BaseProcessor::doGet\<close>, \<^verbatim>\<open>doPrefix\<close> and \<^verbatim>\<open>doSyncPut\<close>.\<close>

definition doGet :: "ResultCode \<Rightarrow> KV list \<Rightarrow> string \<Rightarrow> ErrorCode + string" where
  "doGet rc store key =
     (case kv_get rc store key of (code, val) \<Rightarrow>
        if code \<noteq> ResultCode_SUCCEEDED then Inl (MetaCommon_to code) else Inr val)"

definition doPrefix :: "ResultCode \<Rightarrow> KV list \<Rightarrow> string \<Rightarrow> ErrorCode + KV list" where
  "doPrefix rc store key =
     (case kv_prefix rc store key of
        Inl code \<Rightarrow> Inl (MetaCommon_to code)
      | Inr iter \<Rightarrow> Inr iter)"

definition doSyncPut :: "ResultCode \<Rightarrow> KV list \<Rightarrow> KV list \<Rightarrow> ErrorCode \<times> KV list" where
  "doSyncPut rc store data = (MetaCommon_to rc, kv_multiPut rc store data)"

text \<open>
  Modelled from the spec: \<^verbatim>\<open>LastUpdateTimeMan::update\<close> is not among the sources.  The
  spec has it write \<open>lastUpdateTime = now_ms\<close>; \<open>rc\<close> is the engine's code for that write.
\<close>

definition LastUpdateTimeMan_update ::
  "'h MetaServiceUtils \<Rightarrow> ResultCode \<Rightarrow> int \<Rightarrow> KV list \<Rightarrow> ErrorCode \<times> KV list" where
  "LastUpdateTimeMan_update utils rc now store =
     (MetaCommon_to rc, kv_multiPut rc store [(lastUpdateTimeKey utils, lastUpdateTimeVal utils now)])"

text \<open>
  \<^verbatim>\<open>BaseProcessor::doSyncMultiRemoveAndUpdate\<close>: the code handed to \<^verbatim>\<open>handleErrorCode\<close>
  before \<^verbatim>\<open>onFinished\<close>, and the partition afterwards.
\<close>

definition doSyncMultiRemoveAndUpdate ::
  "'h MetaServiceUtils \<Rightarrow> ResultCode \<Rightarrow> ResultCode \<Rightarrow> int \<Rightarrow> KV list \<Rightarrow> string list
     \<Rightarrow> ErrorCode \<times> KV list" where
  "doSyncMultiRemoveAndUpdate utils removeRc updateRc now store keys =
     (let store' = kv_multiRemove removeRc store keys in
      if removeRc \<noteq> ResultCode_SUCCEEDED then (MetaCommon_to removeRc, store')
      else LastUpdateTimeMan_update utils updateRc now store')"

text \<open>
  \<^verbatim>\<open>BaseProcessor::getSpaceId\<close>.  The id is read from the first four bytes of the stored
  value; \<open>None\<close> is the read of a value that is too short.
\<close>

definition getSpaceId ::
  "'h MetaServiceUtils \<Rightarrow> ResultCode \<Rightarrow> KV list \<Rightarrow> string \<Rightarrow> (ErrorCode + GraphSpaceID) option" where
  "getSpaceId utils rc store spaceName =
     (let indexKey = indexSpaceKey utils spaceName in
      case doGet rc store indexKey of
        Inr val \<Rightarrow> map_option (\<lambda>w. Inr (sint w)) (read_int32 val)
      | Inl e \<Rightarrow> Some (Inl e))"

section \<open>DropSpaceProcessor\<close>

record DropSpaceReq =
  space_name :: string
  if_exists :: bool

text \<open>
  The engine's codes for the calls of one \<^verbatim>\<open>DropSpaceProcessor::process\<close>, in the order
  of the calls, and the wall clock read by \<^verbatim>\<open>doSyncMultiRemoveAndUpdate\<close>.
\<close>

record DropSpaceEngine =
  ds_getRc :: ResultCode
  ds_partRc :: ResultCode
  ds_roleRc :: ResultCode
  ds_lstRc :: ResultCode
  ds_removeRc :: ResultCode
  ds_updateRc :: ResultCode
  ds_now :: int

text \<open>
  \<^verbatim>\<open>DropSpaceProcessor::process\<close>: the response code at \<^verbatim>\<open>onFinished\<close> and the partition
  afterwards.  The third scan is \<^verbatim>\<open>doPrefix(rolePrefix)\<close>, as in the source;
  \<open>lstPrefix\<close> is computed and not used.  The locks are not modelled.
\<close>

definition DropSpaceProcessor_process ::
  "'h MetaServiceUtils \<Rightarrow> DropSpaceEngine \<Rightarrow> DropSpaceReq \<Rightarrow> KV list \<Rightarrow> (ErrorCode \<times> KV list) option" where
  "DropSpaceProcessor_process utils engine req store =
     (let spaceName = space_name req in
      case getSpaceId utils (ds_getRc engine) store spaceName of
        None \<Rightarrow> None
      | Some (Inl retCode) \<Rightarrow>
          Some (if retCode = E_NOT_FOUND \<and> if_exists req then SUCCEEDED else retCode, store)
      | Some (Inr spaceId) \<Rightarrow>
          let prefix = partPrefix utils spaceId in
          case doPrefix (ds_partRc engine) store prefix of
            Inl retCode \<Rightarrow> Some (retCode, store)
          | Inr iter \<Rightarrow>
              let deleteKeys = map fst iter;
                  deleteKeys = deleteKeys @ [indexSpaceKey utils spaceName];
                  deleteKeys = deleteKeys @ [spaceKey utils spaceId];
                  rolePrefix = roleSpacePrefix utils spaceId in
              case doPrefix (ds_roleRc engine) store rolePrefix of
                Inl retCode \<Rightarrow> Some (retCode, store)
              | Inr roleIter \<Rightarrow>
                  let deleteKeys = deleteKeys @ map fst roleIter;
                      lstPrefix = listenerPrefix utils spaceId in
                  case doPrefix (ds_lstRc engine) store rolePrefix of
                    Inl retCode \<Rightarrow> Some (retCode, store)
                  | Inr lstIter \<Rightarrow>
                      let deleteKeys = deleteKeys @ map fst lstIter;
                          statiskey = statisKey utils spaceId;
                          deleteKeys = deleteKeys @ [statiskey]
                      in Some (doSyncMultiRemoveAndUpdate utils (ds_removeRc engine)
                                 (ds_updateRc engine) (ds_now engine) store deleteKeys))"

text \<open>
  Modelled from the spec: a codec for evaluating the processors on concrete partitions.
  The spec has every key made of a textual prefix followed by the ids as fixed-width
  little-endian bytes; the prefixes are the table names of the metadata service.  A
  host address is a number here, and a part value lists its hosts one byte each.
\<close>

definition le32 :: "int \<Rightarrow> string" where
  "le32 i = int32_bytes (word_of_int i)"

definition exampleUtils :: "nat MetaServiceUtils" where
  "exampleUtils =
     \<lparr>partPrefix_all = ''__parts__'',
      partPrefix = (\<lambda>sid. ''__parts__'' @ le32 sid),
      parsePartVal = map of_char,
      parsePartKeySpaceId = (\<lambda>key. case read_int32 (drop 9 key) of Some w \<Rightarrow> sint w | None \<Rightarrow> 0),
      indexSpaceKey = (\<lambda>n. ''__index__'' @ le32 1 @ n),
      spaceKey = (\<lambda>sid. ''__spaces__'' @ le32 sid),
      spacePrefix = ''__spaces__'',
      spaceId_of_key = (\<lambda>key. case read_int32 (drop 10 key) of Some w \<Rightarrow> sint w | None \<Rightarrow> 0),
      parseSpace = (\<lambda>val. val),
      roleSpacePrefix = (\<lambda>sid. ''__roles__'' @ le32 sid),
      listenerPrefix = (\<lambda>sid. ''__listener__'' @ le32 sid),
      statisKey = (\<lambda>sid. ''__statis__'' @ le32 sid),
      rebuildIndexStatusPrefix = ''__rebuild_index_status__'',
      snapshotKey = (\<lambda>n. ''__snapshots__'' @ n),
      snapshotVal = (\<lambda>st hosts. (case st of VALID \<Rightarrow> ''VALID'' | INVALID \<Rightarrow> ''INVALID'') @ hosts),
      toHostsStr = map char_of,
      lastUpdateTimeKey = ''__last_update_time__'',
      lastUpdateTimeVal = (\<lambda>t. le32 t)\<rparr>"

section \<open>Snapshot: checkpoints and write blocking on the storage hosts\<close>

datatype EngineSignType = BLOCK_ON | BLOCK_OFF

text \<open>
  The admin client is outside the sources.  Its three calls are functions that give
  the status a storage host answers with: for \<^verbatim>\<open>createSnapshot\<close> the checkpoint
  directory (\<open>Some dir\<close>) or a failed status (\<open>None\<close>), for the other two whether the
  status is ok.  Every call made is recorded, in order, with its status.
\<close>

record 'h AdminClient =
  client_createSnapshot :: "GraphSpaceID \<Rightarrow> string \<Rightarrow> 'h \<Rightarrow> string option"
  client_dropSnapshot :: "GraphSpaceID \<Rightarrow> string \<Rightarrow> 'h \<Rightarrow> bool"
  client_blockingWrites :: "GraphSpaceID \<Rightarrow> EngineSignType \<Rightarrow> 'h \<Rightarrow> bool"

datatype 'h RPC =
    RPC_createSnapshot GraphSpaceID string 'h
  | RPC_dropSnapshot GraphSpaceID string 'h
  | RPC_blockingWrites GraphSpaceID EngineSignType 'h

type_synonym 'h Calls = "('h RPC \<times> bool) list"

text \<open>
  \<^verbatim>\<open>hostsByspaces[space].emplace(ph)\<close> on a
  \<^verbatim>\<open>std::map<GraphSpaceID, std::set<HostAddr>>\<close>: the map is the list of its entries in
  key order, each set the list of its elements in order.
\<close>

fun emplace_host ::
  "GraphSpaceID \<Rightarrow> 'h::linorder \<Rightarrow> (GraphSpaceID \<times> 'h list) list \<Rightarrow> (GraphSpaceID \<times> 'h list) list" where
  "emplace_host space ph [] = [(space, [ph])]"
| "emplace_host space ph ((s, hs) # m) =
     (if space < s then (space, [ph]) # (s, hs) # m
      else if space = s then (s, insort_insert ph hs) # m
      else (s, hs) # emplace_host space ph m)"

text \<open>
  \<^verbatim>\<open>Snapshot::getSpacesHosts\<close>; \<open>spaces\<close> is the member \<^verbatim>\<open>spaces_\<close> and \<open>kvRet\<close> the
  engine's code for the scan of the part table.
\<close>

definition getSpacesHosts ::
  "('h::linorder) MetaServiceUtils \<Rightarrow> ResultCode \<Rightarrow> KV list \<Rightarrow> GraphSpaceID set
     \<Rightarrow> ErrorCode + (GraphSpaceID \<times> 'h list) list" where
  "getSpacesHosts utils kvRet store spaces =
     (case kv_prefix kvRet store (partPrefix_all utils) of
        Inl rc \<Rightarrow> Inl (MetaCommon_to rc)
      | Inr iter \<Rightarrow>
          Inr (foldl (\<lambda>hostsByspaces kv.
                        let partHosts = parsePartVal utils (snd kv);
                            space = parsePartKeySpaceId utils (fst kv)
                        in if spaces \<noteq> {} \<and> space \<notin> spaces then hostsByspaces
                           else foldl (\<lambda>m ph. emplace_host space ph m) hostsByspaces partHosts)
                 [] iter))"

text \<open>
  The inner and the outer loop of \<^verbatim>\<open>Snapshot::createSnapshot\<close>.  The first component
  is \<open>Some E_RPC_FAILURE\<close> when the \<^verbatim>\<open>return\<close> inside the loops was taken; the second
  is \<^verbatim>\<open>info\<close> (the checkpoints per space); the third the calls made.
\<close>

fun createSnapshot_hosts ::
  "'h AdminClient \<Rightarrow> string \<Rightarrow> GraphSpaceID \<Rightarrow> 'h list
     \<Rightarrow> ErrorCode option \<times> ('h \<times> string) list \<times> 'h Calls" where
  "createSnapshot_hosts client snapName space [] = (None, [], [])"
| "createSnapshot_hosts client snapName space (host # hosts) =
     (case client_createSnapshot client space snapName host of
        None \<Rightarrow> (Some E_RPC_FAILURE, [], [(RPC_createSnapshot space snapName host, False)])
      | Some dir \<Rightarrow>
          (case createSnapshot_hosts client snapName space hosts of (r, infos, calls) \<Rightarrow>
             (r, (host, dir) # infos, (RPC_createSnapshot space snapName host, True) # calls)))"

fun createSnapshot_spaces ::
  "'h AdminClient \<Rightarrow> string \<Rightarrow> (GraphSpaceID \<times> 'h list) list
     \<Rightarrow> ErrorCode option \<times> (GraphSpaceID \<times> ('h \<times> string) list) list \<times> 'h Calls" where
  "createSnapshot_spaces client snapName [] = (None, [], [])"
| "createSnapshot_spaces client snapName (spaceHosts # spacesHosts) =
     (case createSnapshot_hosts client snapName (fst spaceHosts) (snd spaceHosts) of
        (Some e, infos, calls) \<Rightarrow> (Some e, [], calls)
      | (None, infos, calls) \<Rightarrow>
          (case createSnapshot_spaces client snapName spacesHosts of (r, info, calls') \<Rightarrow>
             (r, (if infos = [] then info else (fst spaceHosts, infos) # info), calls @ calls')))"

definition createSnapshot ::
  "('h::linorder) MetaServiceUtils \<Rightarrow> 'h AdminClient \<Rightarrow> ResultCode \<Rightarrow> KV list \<Rightarrow> GraphSpaceID set
     \<Rightarrow> string \<Rightarrow> (ErrorCode + (GraphSpaceID \<times> ('h \<times> string) list) list) \<times> 'h Calls" where
  "createSnapshot utils client kvRet store spaces snapName =
     (case getSpacesHosts utils kvRet store spaces of
        Inl retcode \<Rightarrow> (Inl (if retcode \<noteq> E_LEADER_CHANGED then E_STORE_FAILURE else retcode), [])
      | Inr spacesHosts \<Rightarrow>
          (case createSnapshot_spaces client snapName spacesHosts of
             (Some e, info, calls) \<Rightarrow> (Inl e, calls)
           | (None, info, calls) \<Rightarrow> (Inr info, calls)))"

text \<open>
  The loops of \<^verbatim>\<open>Snapshot::dropSnapshot\<close>: a failed status is logged and nothing else.
\<close>

fun dropSnapshot_hosts :: "'h AdminClient \<Rightarrow> string \<Rightarrow> 'h list \<Rightarrow> GraphSpaceID \<Rightarrow> 'h list \<Rightarrow> 'h Calls" where
  "dropSnapshot_hosts client snapName hosts space [] = []"
| "dropSnapshot_hosts client snapName hosts space (host # rest) =
     (if host \<in> set hosts
      then (RPC_dropSnapshot space snapName host, client_dropSnapshot client space snapName host)
             # dropSnapshot_hosts client snapName hosts space rest
      else dropSnapshot_hosts client snapName hosts space rest)"

fun dropSnapshot_spaces ::
  "'h AdminClient \<Rightarrow> string \<Rightarrow> 'h list \<Rightarrow> (GraphSpaceID \<times> 'h list) list \<Rightarrow> 'h Calls" where
  "dropSnapshot_spaces client snapName hosts [] = []"
| "dropSnapshot_spaces client snapName hosts (spaceHosts # spacesHosts) =
     dropSnapshot_hosts client snapName hosts (fst spaceHosts) (snd spaceHosts)
       @ dropSnapshot_spaces client snapName hosts spacesHosts"

definition dropSnapshot ::
  "('h::linorder) MetaServiceUtils \<Rightarrow> 'h AdminClient \<Rightarrow> ResultCode \<Rightarrow> KV list \<Rightarrow> GraphSpaceID set
     \<Rightarrow> string \<Rightarrow> 'h list \<Rightarrow> ErrorCode \<times> 'h Calls" where
  "dropSnapshot utils client kvRet store spaces snapName hosts =
     (case getSpacesHosts utils kvRet store spaces of
        Inl retcode \<Rightarrow> (if retcode \<noteq> E_LEADER_CHANGED then E_STORE_FAILURE else retcode, [])
      | Inr spacesHosts \<Rightarrow> (SUCCEEDED, dropSnapshot_spaces client snapName hosts spacesHosts))"

text \<open>
  The loops of \<^verbatim>\<open>Snapshot::blockingWrites\<close>, threading \<^verbatim>\<open>ret\<close>.  The \<^verbatim>\<open>break\<close> on a
  failed \<^verbatim>\<open>BLOCK_ON\<close> leaves the loop over the hosts of the current space; the loop over
  the spaces goes on.
\<close>

fun blockingWrites_hosts ::
  "'h AdminClient \<Rightarrow> EngineSignType \<Rightarrow> GraphSpaceID \<Rightarrow> 'h list \<Rightarrow> ErrorCode \<Rightarrow> ErrorCode \<times> 'h Calls" where
  "blockingWrites_hosts client sign space [] ret = (ret, [])"
| "blockingWrites_hosts client sign space (host # hosts) ret =
     (if \<not> client_blockingWrites client space sign host then
        (if sign = BLOCK_ON
         then (E_BLOCK_WRITE_FAILURE, [(RPC_blockingWrites space sign host, False)])
         else (case blockingWrites_hosts client sign space hosts E_BLOCK_WRITE_FAILURE of
                 (r, calls) \<Rightarrow> (r, (RPC_blockingWrites space sign host, False) # calls)))
      else (case blockingWrites_hosts client sign space hosts ret of
              (r, calls) \<Rightarrow> (r, (RPC_blockingWrites space sign host, True) # calls)))"

fun blockingWrites_spaces ::
  "'h AdminClient \<Rightarrow> EngineSignType \<Rightarrow> (GraphSpaceID \<times> 'h list) list \<Rightarrow> ErrorCode \<Rightarrow> ErrorCode \<times> 'h Calls" where
  "blockingWrites_spaces client sign [] ret = (ret, [])"
| "blockingWrites_spaces client sign (spaceHosts # spacesHosts) ret =
     (case blockingWrites_hosts client sign (fst spaceHosts) (snd spaceHosts) ret of
        (ret', calls) \<Rightarrow>
          (case blockingWrites_spaces client sign spacesHosts ret' of
             (r, calls') \<Rightarrow> (r, calls @ calls')))"

definition blockingWrites ::
  "('h::linorder) MetaServiceUtils \<Rightarrow> 'h AdminClient \<Rightarrow> ResultCode \<Rightarrow> KV list \<Rightarrow> GraphSpaceID set
     \<Rightarrow> EngineSignType \<Rightarrow> ErrorCode \<times> 'h Calls" where
  "blockingWrites utils client kvRet store spaces sign =
     (case getSpacesHosts utils kvRet store spaces of
        Inl retcode \<Rightarrow> (if retcode \<noteq> E_LEADER_CHANGED then E_STORE_FAILURE else retcode, [])
      | Inr spacesHosts \<Rightarrow> blockingWrites_spaces client sign spacesHosts SUCCEEDED)"

text \<open>
  The (space, host) pairs of an enumeration, in the order in which the loops of the
  three functions above visit them.
\<close>

definition pairs_of :: "(GraphSpaceID \<times> 'h list) list \<Rightarrow> (GraphSpaceID \<times> 'h) list" where
  "pairs_of spacesHosts = concat (map (\<lambda>spaceHosts. map (Pair (fst spaceHosts)) (snd spaceHosts)) spacesHosts)"

text \<open>Whether the storage host answers a \<^verbatim>\<open>createSnapshot\<close> call with an ok status.\<close>

definition created :: "'h AdminClient \<Rightarrow> string \<Rightarrow> GraphSpaceID \<times> 'h \<Rightarrow> bool" where
  "created client snapName p = (client_createSnapshot client (fst p) snapName (snd p) \<noteq> None)"

section \<open>CreateBackupProcessor\<close>

text \<open>
  \<^verbatim>\<open>KVStore::multiGet\<close> as \<^verbatim>\<open>doMultiGet\<close> uses it: the values of the keys, or a code
  that is not \<^verbatim>\<open>SUCCEEDED\<close> when the read is not served or a key is missing.
\<close>

definition kv_multiGet :: "ResultCode \<Rightarrow> KV list \<Rightarrow> string list \<Rightarrow> ResultCode + string list" where
  "kv_multiGet rc store keys =
     (if rc \<noteq> ResultCode_SUCCEEDED then Inl rc
      else if list_all (\<lambda>k. map_of store k \<noteq> None) keys
      then Inr (map (\<lambda>k. case map_of store k of Some v \<Rightarrow> v | None \<Rightarrow> []) keys)
      else Inl ERR_UNKNOWN)"

definition doMultiGet :: "ResultCode \<Rightarrow> KV list \<Rightarrow> string list \<Rightarrow> ErrorCode + string list" where
  "doMultiGet rc store keys =
     (case kv_multiGet rc store keys of
        Inl code \<Rightarrow> Inl (MetaCommon_to code)
      | Inr values \<Rightarrow> Inr values)"

text \<open>
  The \<^verbatim>\<open>std::transform\<close> of \<^verbatim>\<open>spaceNameToId\<close> that reads a space id from each value;
  \<open>None\<close> when a value is too short for the read.
\<close>

fun read_spaceIds :: "string list \<Rightarrow> GraphSpaceID list option" where
  "read_spaceIds [] = Some []"
| "read_spaceIds (rawID # values) =
     (case read_int32 rawID of
        None \<Rightarrow> None
      | Some w \<Rightarrow> map_option (\<lambda>ids. sint w # ids) (read_spaceIds values))"

text \<open>
  \<^verbatim>\<open>CreateBackupProcessor::spaceNameToId\<close>.  \<open>backupSpaces\<close> is \<open>None\<close> for the null
  pointer.  The \<^verbatim>\<open>std::unordered_set\<close> of ids is the list of its elements.  The
  \<^verbatim>\<open>DCHECK\<close> is a debug assertion and has no branch here.
\<close>

definition spaceNameToId ::
  "'h MetaServiceUtils \<Rightarrow> ResultCode \<Rightarrow> KV list \<Rightarrow> string list option
     \<Rightarrow> (ErrorCode + GraphSpaceID list) option" where
  "spaceNameToId utils rc store backupSpaces =
     (let found =
        (case backupSpaces of
           Some names \<Rightarrow>
             (let keys = map (indexSpaceKey utils) names in
              case doMultiGet rc store keys of
                Inl retCode \<Rightarrow> Some (Inl retCode)
              | Inr values \<Rightarrow> map_option (\<lambda>ids. Inr (remdups ids)) (read_spaceIds values))
         | None \<Rightarrow>
             (case doPrefix rc store (spacePrefix utils) of
                Inl retCode \<Rightarrow> Some (Inl retCode)
              | Inr iter \<Rightarrow> Some (Inr (remdups (map (\<lambda>kv. spaceId_of_key utils (fst kv)) iter)))))
      in case found of
           Some (Inr spaces) \<Rightarrow>
             if spaces = [] then Some (Inl E_BACKUP_SPACE_NOT_FOUND) else Some (Inr spaces)
         | other \<Rightarrow> other)"

text \<open>\<^verbatim>\<open>CreateBackupProcessor::isIndexRebuilding\<close>.\<close>

definition isIndexRebuilding ::
  "'h MetaServiceUtils \<Rightarrow> ResultCode \<Rightarrow> KV list \<Rightarrow> ErrorCode + bool" where
  "isIndexRebuilding utils rc store =
     (case doPrefix rc store (rebuildIndexStatusPrefix utils) of
        Inl retCode \<Rightarrow> Inl retCode
      | Inr iter \<Rightarrow> Inr (list_ex (\<lambda>kv. snd kv = ''RUNNING'') iter))"

record CreateBackupReq =
  req_spaces :: "string list option"

text \<open>
  What one \<^verbatim>\<open>CreateBackupProcessor::process\<close> gets from outside the sources: whether this
  meta server leads the metadata partition, the answer of
  \<^verbatim>\<open>ActiveHostsMan::getActiveHosts\<close>, the timestamp string, the files of
  \<^verbatim>\<open>MetaServiceUtils::backup\<close> (\<open>None\<close> when it has no value), the storage hosts'
  answers, and the engine's code for each call of the engine: the scans in
  \<^verbatim>\<open>isIndexRebuilding\<close> and \<^verbatim>\<open>spaceNameToId\<close>, the scan of the part table in
  \<^verbatim>\<open>blockingWrites(BLOCK_ON)\<close>, in \<^verbatim>\<open>createSnapshot\<close> and in
  \<^verbatim>\<open>blockingWrites(BLOCK_OFF)\<close>, the final put, and the read of each space's record.
\<close>

record 'h CreateBackupEnv =
  isLeader :: bool
  rebuildRc :: ResultCode
  activeHostsRet :: "ErrorCode + 'h list"
  spacesRc :: ResultCode
  timestampStr :: string
  blockOnRc :: ResultCode
  snapshotRc :: ResultCode
  backupFiles :: "string list option"
  blockOffRc :: ResultCode
  putRc :: ResultCode
  spaceGetRc :: "GraphSpaceID \<Rightarrow> ResultCode"
  adminClient :: "'h AdminClient"

record 'h BackupMeta =
  meta_files :: "string list"
  backup_info :: "(GraphSpaceID \<times> string \<times> ('h \<times> string) list) list"
  backup_name :: string

text \<open>
  The outcome of a request: the response code at \<^verbatim>\<open>onFinished\<close>, the manifest set
  in the response, the metadata partition afterwards, and the calls made to the
  storage hosts.
\<close>

record 'h BackupOutcome =
  resp_code :: ErrorCode
  resp_meta :: "'h BackupMeta option"
  store_after :: "KV list"
  rpc_calls :: "'h Calls"

definition finished :: "ErrorCode \<Rightarrow> KV list \<Rightarrow> 'h Calls \<Rightarrow> 'h BackupOutcome option" where
  "finished c store calls =
     Some \<lparr>resp_code = c, resp_meta = None, store_after = store, rpc_calls = calls\<rparr>"

text \<open>
  The last loop of \<^verbatim>\<open>process\<close>, over the spaces: \<open>Some (Inl e)\<close> is the early return on
  a failed read, \<open>None\<close> the use of \<^verbatim>\<open>snapshotInfo.find(id)\<close> for a space \<open>sid\<close> that has no
  checkpoint entry.
\<close>

fun backupInfo_loop ::
  "'h MetaServiceUtils \<Rightarrow> (GraphSpaceID \<Rightarrow> ResultCode) \<Rightarrow> KV list
     \<Rightarrow> (GraphSpaceID \<times> ('h \<times> string) list) list \<Rightarrow> GraphSpaceID list
     \<Rightarrow> (ErrorCode + (GraphSpaceID \<times> string \<times> ('h \<times> string) list) list) option" where
  "backupInfo_loop utils rcs store snapshotInfo [] = Some (Inr [])"
| "backupInfo_loop utils rcs store snapshotInfo (sid # spaces) =
     (case doGet (rcs sid) store (spaceKey utils sid) of
        Inl e \<Rightarrow> Some (Inl e)
      | Inr val \<Rightarrow>
          (let properties = parseSpace utils val in
           case map_of snapshotInfo sid of
             None \<Rightarrow> None
           | Some cp_dirs \<Rightarrow>
               (case backupInfo_loop utils rcs store snapshotInfo spaces of
                  Some (Inr backupInfo) \<Rightarrow> Some (Inr ((sid, properties, cp_dirs) # backupInfo))
                | other \<Rightarrow> other)))"

text \<open>
  \<^verbatim>\<open>CreateBackupProcessor::process\<close>.  The record built for the \<^verbatim>\<open>INVALID\<close> status is
  appended to the local vector \<open>data\<close>; the only write of \<open>data\<close> is the
  \<^verbatim>\<open>doSyncPut\<close> of step 6.  \<open>None\<close> is a read that is not defined (see
  \<open>read_spaceIds\<close> and \<open>backupInfo_loop\<close>).  The locks are not modelled.
\<close>

definition CreateBackupProcessor_process ::
  "('h::linorder) MetaServiceUtils \<Rightarrow> 'h CreateBackupEnv \<Rightarrow> CreateBackupReq \<Rightarrow> KV list
     \<Rightarrow> 'h BackupOutcome option" where
  "CreateBackupProcessor_process utils env req store =
     (let backupSpaces = req_spaces req in
      if \<not> isLeader env then finished E_LEADER_CHANGED store []
      else case isIndexRebuilding utils (rebuildRc env) store of
        Inl e \<Rightarrow> finished e store []
      | Inr True \<Rightarrow> finished E_BACKUP_BUILDING_INDEX store []
      | Inr False \<Rightarrow>
      (case activeHostsRet env of
        Inl e \<Rightarrow> finished e store []
      | Inr hosts \<Rightarrow>
      if hosts = [] then finished E_NO_HOSTS store []
      else case spaceNameToId utils (spacesRc env) store backupSpaces of
        None \<Rightarrow> None
      | Some (Inl e) \<Rightarrow> finished e store []
      | Some (Inr spaces) \<Rightarrow>
      (let backupName = ''BACKUP_'' @ timestampStr env;
           data = [(snapshotKey utils backupName,
                    snapshotVal utils INVALID (toHostsStr utils hosts))]
       in case blockingWrites utils (adminClient env) (blockOnRc env) store (set spaces) BLOCK_ON of
        (ret, calls1) \<Rightarrow>
      if ret \<noteq> SUCCEEDED then
        (case blockingWrites utils (adminClient env) (blockOffRc env) store (set spaces) BLOCK_OFF of
           (ret', calls2) \<Rightarrow> finished ret store (calls1 @ calls2))
      else case createSnapshot utils (adminClient env) (snapshotRc env) store (set spaces) backupName of
        (Inl e, calls2) \<Rightarrow>
          (case blockingWrites utils (adminClient env) (blockOffRc env) store (set spaces) BLOCK_OFF of
             (ret', calls3) \<Rightarrow> finished e store (calls1 @ calls2 @ calls3))
      | (Inr snapshotInfo, calls2) \<Rightarrow>
      (case backupFiles env of
        None \<Rightarrow> finished E_BACKUP_FAILURE store (calls1 @ calls2)
      | Some files \<Rightarrow>
      (case blockingWrites utils (adminClient env) (blockOffRc env) store (set spaces) BLOCK_OFF of
        (ret, calls3) \<Rightarrow>
      if ret \<noteq> SUCCEEDED then finished ret store (calls1 @ calls2 @ calls3)
      else
      (let data = data @ [(snapshotKey utils backupName,
                           snapshotVal utils VALID (toHostsStr utils hosts))]
       in case doSyncPut (putRc env) store data of
        (putRet, store') \<Rightarrow>
      if putRet \<noteq> SUCCEEDED then finished putRet store' (calls1 @ calls2 @ calls3)
      else case backupInfo_loop utils (spaceGetRc env) store' snapshotInfo spaces of
        None \<Rightarrow> None
      | Some (Inl e) \<Rightarrow> finished e store' (calls1 @ calls2 @ calls3)
      | Some (Inr backupInfo) \<Rightarrow>
          Some \<lparr>resp_code = SUCCEEDED,
                resp_meta = Some \<lparr>meta_files = files, backup_info = backupInfo,
                                   backup_name = backupName\<rparr>,
                store_after = store',
                rpc_calls = calls1 @ calls2 @ calls3\<rparr>))))))"

section \<open>Verified properties\<close>

subsection \<open>indexCheck and checkIndexExist\<close>

lemma indexCheck_cols_eq:
  "indexCheck_cols indexCols tagCols =
     (if \<exists>tCol\<in>set tagCols. name tCol \<in> name ` set indexCols then Some E_CONFLICT else None)"
  by (induction tagCols) (auto simp: find_None_iff)

lemma indexCheck_items_eq:
  "indexCheck_items index alterItems =
     (if \<exists>tagItem\<in>set alterItems. (op tagItem = CHANGE \<or> op tagItem = DROP) \<and>
           (\<exists>tCol\<in>set (columns (schema tagItem)). name tCol \<in> name ` set (get_fields index))
      then Some E_CONFLICT else None)"
  by (induction alterItems) (auto simp: indexCheck_cols_eq)

lemma indexCheck_eq:
  "indexCheck items alterItems =
     (if \<exists>index\<in>set items. \<exists>tagItem\<in>set alterItems. (op tagItem = CHANGE \<or> op tagItem = DROP) \<and>
           (\<exists>tCol\<in>set (columns (schema tagItem)). name tCol \<in> name ` set (get_fields index))
      then E_CONFLICT else SUCCEEDED)"
  by (induction items) (auto simp: indexCheck_items_eq)

text \<open>
  Claim C7.  \<^verbatim>\<open>indexCheck\<close> returns \<open>SUCCEEDED\<close> exactly when no alter item with
  op \<open>CHANGE\<close> or \<open>DROP\<close> has a column whose name is in the field list of some
  existing index; otherwise it returns \<open>E_CONFLICT\<close>; and the items with op \<open>ADD\<close> have
  no influence on the result.
\<close>

theorem indexCheck_succeeded_iff:
  "(indexCheck items alterItems = SUCCEEDED \<longleftrightarrow>
      \<not> (\<exists>index\<in>set items. \<exists>tagItem\<in>set alterItems.
            (op tagItem = CHANGE \<or> op tagItem = DROP) \<and>
            (\<exists>tCol\<in>set (columns (schema tagItem)). name tCol \<in> name ` set (get_fields index))))
   \<and> (indexCheck items alterItems \<noteq> SUCCEEDED \<longrightarrow> indexCheck items alterItems = E_CONFLICT)
   \<and> indexCheck items alterItems = indexCheck items (filter (\<lambda>tagItem. op tagItem \<noteq> ADD) alterItems)"
proof (intro conjI)
  show "indexCheck items alterItems = indexCheck items (filter (\<lambda>tagItem. op tagItem \<noteq> ADD) alterItems)"
    unfolding indexCheck_eq by (rule if_cong) (fastforce+)
qed (simp_all add: indexCheck_eq)

theorem indexCheck_succeeded_iff_witness:
  "indexCheck [\<lparr>index_name = ''I'', get_fields = [\<lparr>name = ''a'', nullable = False\<rparr>, \<lparr>name = ''b'', nullable = False\<rparr>]\<rparr>]
     [\<lparr>op = DROP, schema = \<lparr>columns = [\<lparr>name = ''b'', nullable = False\<rparr>, \<lparr>name = ''c'', nullable = False\<rparr>]\<rparr>\<rparr>] = E_CONFLICT \<and>
   indexCheck [\<lparr>index_name = ''I'', get_fields = [\<lparr>name = ''a'', nullable = False\<rparr>, \<lparr>name = ''b'', nullable = False\<rparr>]\<rparr>]
     [\<lparr>op = ADD, schema = \<lparr>columns = [\<lparr>name = ''a'', nullable = False\<rparr>]\<rparr>\<rparr>] = SUCCEEDED"
  using indexCheck_succeeded_iff [of "[\<lparr>index_name = ''I'', get_fields = [\<lparr>name = ''a'', nullable = False\<rparr>, \<lparr>name = ''b'', nullable = False\<rparr>]\<rparr>]"
     "[\<lparr>op = DROP, schema = \<lparr>columns = [\<lparr>name = ''b'', nullable = False\<rparr>, \<lparr>name = ''c'', nullable = False\<rparr>]\<rparr>\<rparr>]"]
    indexCheck_succeeded_iff [of "[\<lparr>index_name = ''I'', get_fields = [\<lparr>name = ''a'', nullable = False\<rparr>, \<lparr>name = ''b'', nullable = False\<rparr>]\<rparr>]"
     "[\<lparr>op = ADD, schema = \<lparr>columns = [\<lparr>name = ''a'', nullable = False\<rparr>]\<rparr>\<rparr>]"]
  by simp

declare checkIndexExist_loop.simps [simp del]

lemma checkIndexExist_loop_in_range:
  "length flds \<le> length (get_fields item) \<Longrightarrow> i < length flds \<Longrightarrow>
   checkIndexExist_loop flds item i =
     Inr (\<forall>j. i \<le> j \<and> j < length flds \<longrightarrow> fd_name (flds ! j) = name (get_fields item ! j))"
proof (induction flds item i rule: checkIndexExist_loop.induct)
  case (1 flds item i)
  show ?case
  proof (cases "fd_name (flds ! i) = name (get_fields item ! i)")
    case False
    with "1.prems" show ?thesis
      by (subst checkIndexExist_loop.simps) (auto simp: at_def)
  next
    case True
    show ?thesis
    proof (cases "i = length flds - 1")
      case last: True
      with True "1.prems" have "\<And>j. i \<le> j \<and> j < length flds \<Longrightarrow> j = i" by arith
      with True last "1.prems" show ?thesis
        by (subst checkIndexExist_loop.simps) (auto simp: at_def)
    next
      case notlast: False
      with "1.prems" have lt: "i + 1 < length flds" by arith
      have ih: "checkIndexExist_loop flds item (i + 1) =
        Inr (\<forall>j. i + 1 \<le> j \<and> j < length flds \<longrightarrow> fd_name (flds ! j) = name (get_fields item ! j))"
        using "1.IH" [of "get_fields item ! i"] "1.prems" True notlast lt
        by (simp add: at_def)
      have "(\<forall>j. i \<le> j \<and> j < length flds \<longrightarrow> fd_name (flds ! j) = name (get_fields item ! j))
          = (\<forall>j. i + 1 \<le> j \<and> j < length flds \<longrightarrow> fd_name (flds ! j) = name (get_fields item ! j))"
        using True by (metis Suc_eq_plus1 Suc_leI le_neq_implies_less le_add1 le_trans)
      with ih True notlast "1.prems" show ?thesis
        by (subst checkIndexExist_loop.simps) (simp add: at_def)
    qed
  qed
qed

lemma checkIndexExist_loop_out_of_range:
  "length (get_fields item) < length flds \<Longrightarrow> i \<le> length (get_fields item) \<Longrightarrow>
   \<forall>j. i \<le> j \<and> j < length (get_fields item) \<longrightarrow> fd_name (flds ! j) = name (get_fields item ! j) \<Longrightarrow>
   checkIndexExist_loop flds item i = Inl (OutOfRange (length (get_fields item)))"
proof (induction flds item i rule: checkIndexExist_loop.induct)
  case (1 flds item i)
  show ?case
  proof (cases "i = length (get_fields item)")
    case True
    with "1.prems" show ?thesis
      by (subst checkIndexExist_loop.simps) (simp add: at_def)
  next
    case False
    with "1.prems" have lt: "i < length (get_fields item)" by simp
    with "1.prems" have m: "fd_name (flds ! i) = name (get_fields item ! i)" by simp
    from lt "1.prems" have nl: "i \<noteq> length flds - 1" "i < length flds" by arith+
    have "checkIndexExist_loop flds item (i + 1) = Inl (OutOfRange (length (get_fields item)))"
      using "1.IH" [of "get_fields item ! i"] "1.prems" lt m nl by (simp add: at_def)
    with lt m nl show ?thesis
      by (subst checkIndexExist_loop.simps) (simp add: at_def)
  qed
qed

lemma checkIndexExist_loop_mismatch:
  "j < length flds \<Longrightarrow> j < length (get_fields item) \<Longrightarrow>
   fd_name (flds ! j) \<noteq> name (get_fields item ! j) \<Longrightarrow> i \<le> j \<Longrightarrow>
   checkIndexExist_loop flds item i = Inr False"
proof (induction flds item i rule: checkIndexExist_loop.induct)
  case (1 flds item i)
  from "1.prems" have il: "i < length flds" "i < length (get_fields item)" by simp_all
  show ?case
  proof (cases "fd_name (flds ! i) = name (get_fields item ! i)")
    case False
    with il show ?thesis
      by (subst checkIndexExist_loop.simps) (simp add: at_def)
  next
    case True
    with "1.prems" have "i \<noteq> j" by auto
    with "1.prems" have lt: "i + 1 \<le> j" by simp
    with "1.prems" have nl: "i \<noteq> length flds - 1" by arith
    have "checkIndexExist_loop flds item (i + 1) = Inr False"
      using "1.IH" [of "get_fields item ! i"] "1.prems"(1-3) il True nl lt by (simp add: at_def)
    with il True nl show ?thesis
      by (subst checkIndexExist_loop.simps) (simp add: at_def)
  qed
qed

text \<open>
  Claim C8.  \<^verbatim>\<open>checkIndexExist\<close> returns true on an empty \<open>flds\<close>; on a non-empty
  \<open>flds\<close> that is no longer than the item's field list it returns true exactly when the
  names agree at every position of \<open>flds\<close>, and false otherwise.
\<close>

theorem checkIndexExist_result:
  "checkIndexExist [] item = Inr True \<and>
   (flds \<noteq> [] \<and> length flds \<le> length (get_fields item) \<longrightarrow>
      checkIndexExist flds item =
        Inr (\<forall>i<length flds. fd_name (flds ! i) = name (get_fields item ! i)))"
  using checkIndexExist_loop_in_range [of flds item 0]
  by (auto simp: checkIndexExist_def)

theorem checkIndexExist_result_witness:
  "checkIndexExist [] \<lparr>index_name = ''i1'', get_fields = []\<rparr> = Inr True \<and>
   checkIndexExist [\<lparr>fd_name = ''a''\<rparr>, \<lparr>fd_name = ''b''\<rparr>]
     \<lparr>index_name = ''i1'',
      get_fields = [\<lparr>name = ''a'', nullable = False\<rparr>, \<lparr>name = ''b'', nullable = False\<rparr>,
                    \<lparr>name = ''c'', nullable = False\<rparr>]\<rparr> = Inr True \<and>
   checkIndexExist [\<lparr>fd_name = ''a''\<rparr>, \<lparr>fd_name = ''c''\<rparr>]
     \<lparr>index_name = ''i1'',
      get_fields = [\<lparr>name = ''a'', nullable = False\<rparr>, \<lparr>name = ''b'', nullable = False\<rparr>]\<rparr> = Inr False"
  using checkIndexExist_result [of "\<lparr>index_name = ''i1'', get_fields = []\<rparr>" "[]"]
    checkIndexExist_result [of "\<lparr>index_name = ''i1'',
      get_fields = [\<lparr>name = ''a'', nullable = False\<rparr>, \<lparr>name = ''b'', nullable = False\<rparr>,
                    \<lparr>name = ''c'', nullable = False\<rparr>]\<rparr>" "[\<lparr>fd_name = ''a''\<rparr>, \<lparr>fd_name = ''b''\<rparr>]"]
    checkIndexExist_result [of "\<lparr>index_name = ''i1'',
      get_fields = [\<lparr>name = ''a'', nullable = False\<rparr>, \<lparr>name = ''b'', nullable = False\<rparr>]\<rparr>"
      "[\<lparr>fd_name = ''a''\<rparr>, \<lparr>fd_name = ''c''\<rparr>]"]
  by (simp add: All_less_Suc)

text \<open>
  Claim C10.  The loop reads \<^verbatim>\<open>item.get_fields()[i]\<close> without looking at the size of the
  item's field list.  When \<open>flds\<close> is no longer than that list, no read is out of range
  and a boolean is returned.  The bound is needed: when \<open>flds\<close> is longer and agrees with
  the item on all of the item's names, the read at position \<open>length (get_fields item)\<close>
  is out of range; when it is longer and a name differs within the item's length, the
  loop stops at the first difference and returns false.
\<close>

theorem checkIndexExist_bounds:
  "(length flds \<le> length (get_fields item) \<longrightarrow> (\<exists>b. checkIndexExist flds item = Inr b)) \<and>
   (length (get_fields item) < length flds \<and>
    (\<forall>j<length (get_fields item). fd_name (flds ! j) = name (get_fields item ! j)) \<longrightarrow>
      checkIndexExist flds item = Inl (OutOfRange (length (get_fields item)))) \<and>
   (length (get_fields item) < length flds \<and>
    (\<exists>j<length (get_fields item). fd_name (flds ! j) \<noteq> name (get_fields item ! j)) \<longrightarrow>
      checkIndexExist flds item = Inr False)"
proof (intro conjI impI)
  assume "length (get_fields item) < length flds \<and>
    (\<exists>j<length (get_fields item). fd_name (flds ! j) \<noteq> name (get_fields item ! j))"
  then obtain j where "j < length flds" "j < length (get_fields item)"
    "fd_name (flds ! j) \<noteq> name (get_fields item ! j)" by auto
  from checkIndexExist_loop_mismatch [OF this, of 0]
  show "checkIndexExist flds item = Inr False"
    using \<open>j < length flds\<close> by (auto simp: checkIndexExist_def)
next
  assume "length flds \<le> length (get_fields item)"
  then show "\<exists>b. checkIndexExist flds item = Inr b"
    using checkIndexExist_loop_in_range [of flds item 0]
    by (cases "flds = []") (auto simp: checkIndexExist_def)
next
  assume "length (get_fields item) < length flds \<and>
    (\<forall>j<length (get_fields item). fd_name (flds ! j) = name (get_fields item ! j))"
  then show "checkIndexExist flds item = Inl (OutOfRange (length (get_fields item)))"
    using checkIndexExist_loop_out_of_range [of item flds 0]
    by (auto simp: checkIndexExist_def)
qed

theorem checkIndexExist_bounds_witness:
  "(\<exists>b. checkIndexExist [\<lparr>fd_name = ''a''\<rparr>]
      \<lparr>index_name = ''i1'', get_fields = [\<lparr>name = ''a'', nullable = False\<rparr>]\<rparr> = Inr b) \<and>
   checkIndexExist [\<lparr>fd_name = ''a''\<rparr>, \<lparr>fd_name = ''b''\<rparr>]
      \<lparr>index_name = ''i1'', get_fields = [\<lparr>name = ''a'', nullable = False\<rparr>]\<rparr> = Inl (OutOfRange 1) \<and>
   checkIndexExist [\<lparr>fd_name = ''b''\<rparr>, \<lparr>fd_name = ''c''\<rparr>]
      \<lparr>index_name = ''i1'', get_fields = [\<lparr>name = ''a'', nullable = False\<rparr>]\<rparr> = Inr False"
  using checkIndexExist_bounds [of "[\<lparr>fd_name = ''a''\<rparr>]"
      "\<lparr>index_name = ''i1'', get_fields = [\<lparr>name = ''a'', nullable = False\<rparr>]\<rparr>"]
    checkIndexExist_bounds [of "[\<lparr>fd_name = ''a''\<rparr>, \<lparr>fd_name = ''b''\<rparr>]"
      "\<lparr>index_name = ''i1'', get_fields = [\<lparr>name = ''a'', nullable = False\<rparr>]\<rparr>"]
    checkIndexExist_bounds [of "[\<lparr>fd_name = ''b''\<rparr>, \<lparr>fd_name = ''c''\<rparr>]"
      "\<lparr>index_name = ''i1'', get_fields = [\<lparr>name = ''a'', nullable = False\<rparr>]\<rparr>"]
  by simp

subsection \<open>The ID allocator\<close>

lemma le32_sum:
  fixes u :: nat
  shows "u mod 256 + 256 * (u div 256 mod 256) + 65536 * (u div 65536 mod 256)
           + 16777216 * (u div 16777216) = u"
proof -
  define a where "a = u div 256"
  define b where "b = a div 256"
  define c where "c = b div 256"
  have d2: "u div 65536 = b" by (simp add: a_def b_def div_mult2_eq [symmetric])
  have d3: "u div 16777216 = c" by (simp add: a_def b_def c_def div_mult2_eq [symmetric])
  have s0: "u mod 256 = u - 256 * a" unfolding a_def by (simp add: minus_mult_div_eq_mod)
  have s1: "a mod 256 = a - 256 * b" unfolding b_def by (simp add: minus_mult_div_eq_mod)
  have s2: "b mod 256 = b - 256 * c" unfolding c_def by (simp add: minus_mult_div_eq_mod)
  have l0: "256 * a \<le> u" unfolding a_def by simp
  have l1: "256 * b \<le> a" unfolding b_def by simp
  have l2: "256 * c \<le> b" unfolding c_def by simp
  show ?thesis
    unfolding d2 d3 a_def [symmetric] s0 s1 s2 using l0 l1 l2 by simp
qed

lemma read_int32_bytes: "read_int32 (int32_bytes v) = Some v"
proof -
  have "unat v < 4294967296" using unsigned_less [of v] by simp
  then have hi: "unat v div 16777216 mod 256 = unat v div 16777216" by simp
  have l: "\<not> length (int32_bytes v) < 4" by (simp add: int32_bytes_def)
  have e: "(of_char (int32_bytes v ! 0) :: nat) + 256 * of_char (int32_bytes v ! 1)
             + 65536 * of_char (int32_bytes v ! 2) + 16777216 * of_char (int32_bytes v ! 3) = unat v"
    by (simp add: int32_bytes_def drop_bit_eq_div hi le32_sum)
  show ?thesis
    unfolding read_int32_def by (simp only: l e if_False) simp
qed

lemma autoIncrementId_fresh:
  "map_of store kIdKey = None \<Longrightarrow>
   autoIncrementId ResultCode_SUCCEEDED ResultCode_SUCCEEDED store =
     (Some (Inr 1), AList.update kIdKey (int32_bytes 1) store)"
  by (simp add: autoIncrementId_def kv_get_def kv_multiPut_def)

lemma autoIncrementId_next:
  "map_of store kIdKey = Some (int32_bytes v) \<Longrightarrow>
   autoIncrementId ResultCode_SUCCEEDED ResultCode_SUCCEEDED store =
     (Some (Inr (v + 1)), AList.update kIdKey (int32_bytes (v + 1)) store)"
  by (simp add: autoIncrementId_def kv_get_def kv_multiPut_def read_int32_bytes)

lemma autoIncrementId_calls_from:
  "map_of store kIdKey = Some (int32_bytes v) \<Longrightarrow>
   fst (autoIncrementId_calls n store) = map (\<lambda>k. Some (Inr (v + word_of_nat k))) [1..<Suc n] \<and>
   map_of (snd (autoIncrementId_calls n store)) kIdKey = Some (int32_bytes (v + word_of_nat n))"
proof (induction n arbitrary: store v)
  case 0
  then show ?case by simp
next
  case (Suc n)
  let ?s = "AList.update kIdKey (int32_bytes (v + 1)) store"
  let ?f = "\<lambda>k. (Some (Inr (v + word_of_nat k)) :: (ErrorCode + int32) option)"
  have m: "map_of ?s kIdKey = Some (int32_bytes (v + 1))" by (simp add: update_conv')
  have step: "autoIncrementId_calls (Suc n) store =
      (Some (Inr (v + 1)) # fst (autoIncrementId_calls n ?s), snd (autoIncrementId_calls n ?s))"
    using autoIncrementId_next [OF Suc.prems] by (simp add: split_def Let_def)
  have upt: "[1..<Suc (Suc n)] = 1 # map Suc [1..<Suc n]"
    by (simp add: upt_conv_Cons map_Suc_upt del: upt_Suc)
  have "map ?f [1..<Suc (Suc n)] = ?f 1 # map (\<lambda>k. ?f (Suc k)) [1..<Suc n]"
    unfolding upt by (simp add: comp_def)
  also have "\<dots> = Some (Inr (v + 1)) # map (\<lambda>k. Some (Inr (v + 1 + word_of_nat k))) [1..<Suc n]"
    by (simp add: add.assoc)
  finally have lst: "map ?f [1..<Suc (Suc n)] =
      Some (Inr (v + 1)) # map (\<lambda>k. Some (Inr (v + 1 + word_of_nat k))) [1..<Suc n]" .
  have fin: "v + 1 + word_of_nat n = v + word_of_nat (Suc n)" by (simp add: add.assoc)
  from Suc.IH [OF m] show ?case
    unfolding step lst fin by simp
qed

lemma sint_word_of_nat_32: "k < 2147483648 \<Longrightarrow> sint (word_of_nat k :: int32) = int k"
  by (simp add: signed_of_nat signed_take_bit_int_eq_self)

lemma sint_succ_32: "sint (v :: int32) < 2147483647 \<Longrightarrow> sint (v + 1) = sint v + 1"
proof -
  assume a: "sint v < 2147483647"
  have "- (2 ^ 31) \<le> sint v" using sint_ge [of v] by simp
  with a show ?thesis
    by (simp add: sint_word_add signed_take_bit_int_eq_self)
qed

text \<open>
  Claim C9.  With the engine serving the read and the write: when \<open>__id__\<close> is absent,
  \<^verbatim>\<open>autoIncrementId\<close> returns 1 and stores 1; when \<open>__id__\<close> holds the \<^verbatim>\<open>int32\<close>
  value \<open>v\<close>, it returns \<open>v + 1\<close> and stores \<open>v + 1\<close> (the integer successor of \<open>v\<close>
  below the largest \<^verbatim>\<open>int32\<close>); so \<open>n\<close> successive calls on a partition without
  \<open>__id__\<close> return 1, 2, ..., \<open>n\<close> and leave \<open>n\<close> stored.
\<close>

theorem autoIncrementId_ids:
  "(map_of store kIdKey = None \<longrightarrow>
      fst (autoIncrementId ResultCode_SUCCEEDED ResultCode_SUCCEEDED store) = Some (Inr 1) \<and>
      map_of (snd (autoIncrementId ResultCode_SUCCEEDED ResultCode_SUCCEEDED store)) kIdKey
        = Some (int32_bytes 1)) \<and>
   (map_of store kIdKey = Some (int32_bytes v) \<longrightarrow>
      fst (autoIncrementId ResultCode_SUCCEEDED ResultCode_SUCCEEDED store) = Some (Inr (v + 1)) \<and>
      map_of (snd (autoIncrementId ResultCode_SUCCEEDED ResultCode_SUCCEEDED store)) kIdKey
        = Some (int32_bytes (v + 1)) \<and>
      (sint v < 2147483647 \<longrightarrow> sint (v + 1) = sint v + 1)) \<and>
   (map_of store kIdKey = None \<longrightarrow>
      fst (autoIncrementId_calls n store) = map (\<lambda>k. Some (Inr (word_of_nat k))) [1..<Suc n] \<and>
      (0 < n \<longrightarrow>
         map_of (snd (autoIncrementId_calls n store)) kIdKey = Some (int32_bytes (word_of_nat n))) \<and>
      (n < 2147483648 \<longrightarrow> (\<forall>k\<in>set [1..<Suc n]. sint (word_of_nat k :: int32) = int k)))"
proof (intro conjI impI)
  assume a: "map_of store kIdKey = None"
  show "fst (autoIncrementId ResultCode_SUCCEEDED ResultCode_SUCCEEDED store) = Some (Inr 1)"
    by (simp add: autoIncrementId_fresh [OF a])
  show "map_of (snd (autoIncrementId ResultCode_SUCCEEDED ResultCode_SUCCEEDED store)) kIdKey
        = Some (int32_bytes 1)"
    by (simp add: autoIncrementId_fresh [OF a] update_conv')
next
  assume a: "map_of store kIdKey = Some (int32_bytes v)"
  show "fst (autoIncrementId ResultCode_SUCCEEDED ResultCode_SUCCEEDED store) = Some (Inr (v + 1))"
    by (simp add: autoIncrementId_next [OF a])
  show "map_of (snd (autoIncrementId ResultCode_SUCCEEDED ResultCode_SUCCEEDED store)) kIdKey
        = Some (int32_bytes (v + 1))"
    by (simp add: autoIncrementId_next [OF a] update_conv')
next
  assume "sint v < 2147483647"
  then show "sint (v + 1) = sint v + 1" by (rule sint_succ_32)
next
  assume a: "map_of store kIdKey = None"
  let ?s = "AList.update kIdKey (int32_bytes 1) store"
  have m: "map_of ?s kIdKey = Some (int32_bytes 1)" by (simp add: update_conv')
  have calls: "n = Suc m \<Longrightarrow> autoIncrementId_calls n store =
      (Some (Inr 1) # fst (autoIncrementId_calls m ?s), snd (autoIncrementId_calls m ?s))" for m
    using autoIncrementId_fresh [OF a] by (simp add: split_def Let_def)
  show "fst (autoIncrementId_calls n store) = map (\<lambda>k. Some (Inr (word_of_nat k))) [1..<Suc n]"
  proof (cases n)
    case 0
    then show ?thesis by simp
  next
    case (Suc m)
    have upt: "[1..<Suc (Suc m)] = 1 # map Suc [1..<Suc m]"
      by (simp add: upt_conv_Cons map_Suc_upt del: upt_Suc)
    have "map (\<lambda>k. (Some (Inr (word_of_nat k)) :: (ErrorCode + int32) option)) [1..<Suc (Suc m)]
        = Some (Inr 1) # map (\<lambda>k. Some (Inr (1 + word_of_nat k))) [1..<Suc m]"
      unfolding upt by (simp add: comp_def)
    with autoIncrementId_calls_from [OF m, of m] calls [OF Suc] Suc show ?thesis
      by simp
  qed
  show "map_of (snd (autoIncrementId_calls n store)) kIdKey = Some (int32_bytes (word_of_nat n))"
    if "0 < n"
  proof -
    from that obtain m where n: "n = Suc m" by (cases n) auto
    with autoIncrementId_calls_from [OF m, of m] calls [OF n] show ?thesis
      by (simp add: add.commute)
  qed
  show "\<forall>k\<in>set [1..<Suc n]. sint (word_of_nat k :: int32) = int k" if "n < 2147483648"
    using that by (auto intro!: sint_word_of_nat_32)
qed

theorem autoIncrementId_ids_witness:
  "fst (autoIncrementId ResultCode_SUCCEEDED ResultCode_SUCCEEDED []) = Some (Inr 1) \<and>
   fst (autoIncrementId ResultCode_SUCCEEDED ResultCode_SUCCEEDED [(kIdKey, int32_bytes 41)])
     = Some (Inr 42) \<and>
   sint (41 + 1 :: int32) = 42 \<and>
   fst (autoIncrementId_calls 3 []) = [Some (Inr 1), Some (Inr 2), Some (Inr 3)] \<and>
   map_of (snd (autoIncrementId_calls 3 [])) kIdKey = Some (int32_bytes 3)"
  using autoIncrementId_ids [of "[]" 0 3]
    autoIncrementId_ids [of "[(kIdKey, int32_bytes 41)]" 41 0]
  by (simp add: upt_rec)

subsection \<open>Bytes of the example codec\<close>

lemma le32_values:
  "le32 0 = [CHR 0x00, CHR 0x00, CHR 0x00, CHR 0x00]"
  "le32 1 = [CHR 0x01, CHR 0x00, CHR 0x00, CHR 0x00]"
  "le32 2 = [CHR 0x02, CHR 0x00, CHR 0x00, CHR 0x00]"
  "le32 1000 = [CHR 0xE8, CHR 0x03, CHR 0x00, CHR 0x00]"
  by (simp_all add: le32_def int32_bytes_def drop_bit_eq_div char_of_def bit_iff_odd)

lemma example_getSpacesHosts:
  "getSpacesHosts exampleUtils ResultCode_SUCCEEDED
     [(partPrefix exampleUtils 1 @ le32 1, [CHR 0x01, CHR 0x02])] {} = Inr [(1, [1, 2])]"
  by (simp add: getSpacesHosts_def kv_prefix_def starts_with_def exampleUtils_def le32_values
      read_int32_def insort_insert_key_def)

lemma example_parts:
  "getSpacesHosts exampleUtils ResultCode_SUCCEEDED
     [(indexSpaceKey exampleUtils ''S'', le32 1),
      (spaceKey exampleUtils 1, ''descS''),
      (indexSpaceKey exampleUtils ''T'', le32 2),
      (spaceKey exampleUtils 2, ''descT''),
      (partPrefix exampleUtils 1 @ le32 1, [CHR 0x01, CHR 0x02]),
      (partPrefix exampleUtils 2 @ le32 1, [CHR 0x01, CHR 0x02])] {1, 2}
   = Inr [(1, [1, 2]), (2, [1, 2])]"
  by (simp add: getSpacesHosts_def kv_prefix_def starts_with_def exampleUtils_def le32_values
      read_int32_def insort_insert_key_def)

lemma example_spaces:
  "spaceNameToId exampleUtils ResultCode_SUCCEEDED
     [(indexSpaceKey exampleUtils ''S'', le32 1),
      (spaceKey exampleUtils 1, ''descS''),
      (indexSpaceKey exampleUtils ''T'', le32 2),
      (spaceKey exampleUtils 2, ''descT''),
      (partPrefix exampleUtils 1 @ le32 1, [CHR 0x01, CHR 0x02]),
      (partPrefix exampleUtils 2 @ le32 1, [CHR 0x01, CHR 0x02])] None
   = Some (Inr [1, 2])"
  by (simp add: spaceNameToId_def doPrefix_def kv_prefix_def starts_with_def exampleUtils_def
      le32_values read_int32_def)

lemma example_rebuilding:
  "isIndexRebuilding exampleUtils ResultCode_SUCCEEDED
     [(indexSpaceKey exampleUtils ''S'', le32 1),
      (spaceKey exampleUtils 1, ''descS''),
      (indexSpaceKey exampleUtils ''T'', le32 2),
      (spaceKey exampleUtils 2, ''descT''),
      (partPrefix exampleUtils 1 @ le32 1, [CHR 0x01, CHR 0x02]),
      (partPrefix exampleUtils 2 @ le32 1, [CHR 0x01, CHR 0x02])]
   = Inr False"
  by (simp add: isIndexRebuilding_def doPrefix_def kv_prefix_def starts_with_def exampleUtils_def
      le32_values)

subsection \<open>isOutsideIndex\<close>

lemma prop_inside_property:
  "isOutsideIndex (PropertyExpression k propName) index = (\<not> prop_inside index (k, propName))"
  by (cases k) (auto simp: prop_inside_def propsInEdgeKey_def find_None_iff)

lemma isOutsideIndex_iff:
  "isOutsideIndex e index = (\<exists>kp\<in>set (reached_props e). \<not> prop_inside index kp)"
  "isOutsideIndex_operands es index =
     (\<exists>e\<in>set es. \<exists>kp\<in>set (reached_props e). \<not> prop_inside index kp)"
proof (induction e index and es index rule: isOutsideIndex_isOutsideIndex_operands.induct)
  case (1 k operands index)
  then show ?case by auto
next
  case (2 k left right index)
  then show ?case by auto
next
  case (3 k propName index)
  show ?case using prop_inside_property [of k propName index] by simp
next
  case (4 es index)
  show ?case by simp
next
  case (5 index)
  show ?case by simp
next
  case (6 expr operands index)
  then show ?case by auto
qed

text \<open>
  Claim C4, as the code has it.  When \<^verbatim>\<open>isOutsideIndex\<close> returns false, every
  tag-property or edge-property leaf that is reached from the root through operands of
  logical And/Or nodes and sides of the eight relational operators has a name in the
  index's field list, and every edge-key leaf so reached has one of the four edge-key
  names.  Leaves below a node of any other kind are not looked at.
\<close>

theorem isOutsideIndex_false_reached:
  "isOutsideIndex e index = False \<Longrightarrow>
   \<forall>(k, propName)\<in>set (reached_props e).
     ((k = kTagProperty \<or> k = kEdgeProperty) \<longrightarrow> propName \<in> name ` set (get_fields index)) \<and>
     (k \<in> {kEdgeSrc, kEdgeType, kEdgeRank, kEdgeDst} \<longrightarrow> propName \<in> {kSrc, kType, kRank, kDst})"
proof -
  assume "isOutsideIndex e index = False"
  then have all: "\<forall>kp\<in>set (reached_props e). prop_inside index kp"
    by (simp add: isOutsideIndex_iff(1))
  show ?thesis
  proof (clarify, intro conjI impI)
    fix k propName
    assume m: "(k, propName) \<in> set (reached_props e)"
    with all have p: "prop_inside index (k, propName)" by blast
    show "propName \<in> name ` set (get_fields index)" if "k = kTagProperty \<or> k = kEdgeProperty"
      using p that by (simp add: prop_inside_def)
    show "propName \<in> {kSrc, kType, kRank, kDst}" if "k \<in> {kEdgeSrc, kEdgeType, kEdgeRank, kEdgeDst}"
      using p that by (auto simp: prop_inside_def)
  qed
qed

theorem isOutsideIndex_false_reached_witness:
  "isOutsideIndex
     (LogicalExpression kLogicalAnd
        [RelationalExpression kRelEQ (PropertyExpression kTagProperty ''c1'') (OtherExpression []),
         RelationalExpression kRelEQ (PropertyExpression kEdgeSrc ''_src'') (OtherExpression [])])
     \<lparr>index_name = ''i1'', get_fields = [\<lparr>name = ''c1'', nullable = False\<rparr>]\<rparr> = False \<and>
   ''c1'' \<in> name ` set (get_fields \<lparr>index_name = ''i1'', get_fields = [\<lparr>name = ''c1'', nullable = False\<rparr>]\<rparr>) \<and>
   ''_src'' \<in> {kSrc, kType, kRank, kDst}"
  using isOutsideIndex_false_reached [of
     "LogicalExpression kLogicalAnd
        [RelationalExpression kRelEQ (PropertyExpression kTagProperty ''c1'') (OtherExpression []),
         RelationalExpression kRelEQ (PropertyExpression kEdgeSrc ''_src'') (OtherExpression [])]"
     "\<lparr>index_name = ''i1'', get_fields = [\<lparr>name = ''c1'', nullable = False\<rparr>]\<rparr>"]
  by (simp add: propsInEdgeKey_def kSrc_def)

text \<open>
  The claim as stated speaks of every leaf anywhere inside the expression.  For the
  filter \<open>c1 == 1 AND c3 + 1 > 2\<close> and an index on \<open>c1\<close>, \<^verbatim>\<open>isOutsideIndex\<close> returns
  false although the tag property \<open>c3\<close>, below the arithmetic node, is not an index field.
\<close>

theorem isOutsideIndex_anywhere_counterexample:
  "isOutsideIndex
     (LogicalExpression kLogicalAnd
        [RelationalExpression kRelEQ (PropertyExpression kTagProperty ''c1'') (OtherExpression []),
         RelationalExpression kRelGT
           (OtherExpression [PropertyExpression kTagProperty ''c3'', OtherExpression []])
           (OtherExpression [])])
     \<lparr>index_name = ''i1'', get_fields = [\<lparr>name = ''c1'', nullable = False\<rparr>]\<rparr> = False \<and>
   (kTagProperty, ''c3'') \<in> set (all_props
     (LogicalExpression kLogicalAnd
        [RelationalExpression kRelEQ (PropertyExpression kTagProperty ''c1'') (OtherExpression []),
         RelationalExpression kRelGT
           (OtherExpression [PropertyExpression kTagProperty ''c3'', OtherExpression []])
           (OtherExpression [])])) \<and>
   ''c3'' \<notin> name ` set (get_fields \<lparr>index_name = ''i1'', get_fields = [\<lparr>name = ''c1'', nullable = False\<rparr>]\<rparr>)"
  by simp

subsection \<open>DropSpaceProcessor\<close>

text \<open>
  Claim C1, on the code.  Space \<open>S\<close> with id 1 has a part, a role, a listener and a
  statis record, and every engine call succeeds.  After the drop the part keys,
  \<^verbatim>\<open>indexSpaceKey\<close>, \<^verbatim>\<open>spaceKey\<close>, the role keys and \<^verbatim>\<open>statisKey\<close> are gone, and
  the key under \<^verbatim>\<open>listenerPrefix(1)\<close> is still there: the scan that collects the
  listener keys is made with the role prefix.
\<close>

theorem DropSpaceProcessor_listener_remains:
  "DropSpaceProcessor_process exampleUtils
     \<lparr>ds_getRc = ResultCode_SUCCEEDED, ds_partRc = ResultCode_SUCCEEDED,
      ds_roleRc = ResultCode_SUCCEEDED, ds_lstRc = ResultCode_SUCCEEDED,
      ds_removeRc = ResultCode_SUCCEEDED, ds_updateRc = ResultCode_SUCCEEDED, ds_now = 1000\<rparr>
     \<lparr>space_name = ''S'', if_exists = False\<rparr>
     [(indexSpaceKey exampleUtils ''S'', le32 1),
      (spaceKey exampleUtils 1, ''desc''),
      (partPrefix exampleUtils 1 @ le32 1, ''h1''),
      (roleSpacePrefix exampleUtils 1 @ ''alice'', ''ADMIN''),
      (listenerPrefix exampleUtils 1 @ le32 0 @ le32 1, ''h3''),
      (statisKey exampleUtils 1, ''stats'')]
   = Some (SUCCEEDED,
       [(listenerPrefix exampleUtils 1 @ le32 0 @ le32 1, ''h3''),
        (lastUpdateTimeKey exampleUtils, lastUpdateTimeVal exampleUtils 1000)])"
  by (simp add: DropSpaceProcessor_process_def getSpaceId_def doGet_def kv_get_def doPrefix_def
      kv_prefix_def starts_with_def doSyncMultiRemoveAndUpdate_def kv_multiRemove_def
      LastUpdateTimeMan_update_def kv_multiPut_def exampleUtils_def le32_values read_int32_def)

subsection \<open>Snapshot: which storage hosts are called\<close>

lemma dropSnapshot_hosts_calls:
  "dropSnapshot_hosts cl snapName hosts space hs =
     map (\<lambda>h. (RPC_dropSnapshot space snapName h, client_dropSnapshot cl space snapName h))
       (filter (\<lambda>h. h \<in> set hosts) hs)"
  by (induction hs) simp_all

lemma dropSnapshot_spaces_calls:
  "dropSnapshot_spaces cl snapName hosts spacesHosts =
     map (\<lambda>p. (RPC_dropSnapshot (fst p) snapName (snd p), client_dropSnapshot cl (fst p) snapName (snd p)))
       (filter (\<lambda>p. snd p \<in> set hosts) (pairs_of spacesHosts))"
  by (induction spacesHosts)
     (simp_all add: pairs_of_def dropSnapshot_hosts_calls filter_map comp_def)

lemma createSnapshot_hosts_calls:
  "createSnapshot_hosts cl snapName space hs = (r, infos, calls) \<Longrightarrow>
     map fst calls = map (\<lambda>p. RPC_createSnapshot (fst p) snapName (snd p))
        (take (Suc (length (takeWhile (created cl snapName) (map (Pair space) hs)))) (map (Pair space) hs)) \<and>
     r = (if \<forall>p\<in>set (map (Pair space) hs). created cl snapName p then None else Some E_RPC_FAILURE)"
proof (induction hs arbitrary: r infos calls)
  case Nil
  then show ?case by simp
next
  case (Cons h hs)
  show ?case
  proof (cases "client_createSnapshot cl space snapName h")
    case None
    then have "\<not> created cl snapName (space, h)" by (simp add: created_def)
    with None Cons.prems show ?thesis by auto
  next
    case (Some dir)
    then have ok: "created cl snapName (space, h)" by (simp add: created_def)
    obtain r' infos' calls' where rec: "createSnapshot_hosts cl snapName space hs = (r', infos', calls')"
      by (cases "createSnapshot_hosts cl snapName space hs") auto
    from Cons.prems Some rec have eq: "r = r'" "calls = (RPC_createSnapshot space snapName h, True) # calls'"
      by auto
    from Cons.IH [OF rec] ok show ?thesis unfolding eq by simp
  qed
qed

lemma take_Suc_takeWhile_append:
  "take (Suc (length (takeWhile P (xs @ ys)))) (xs @ ys) =
     (if \<forall>x\<in>set xs. P x then xs @ take (Suc (length (takeWhile P ys))) ys
      else take (Suc (length (takeWhile P xs))) xs)"
proof (cases "\<forall>x\<in>set xs. P x")
  case True
  then show ?thesis by (simp add: takeWhile_append2)
next
  case False
  then obtain x where "x \<in> set xs" "\<not> P x" by blast
  then have tw: "takeWhile P (xs @ ys) = takeWhile P xs" by (simp add: takeWhile_append1)
  have "takeWhile P xs \<noteq> xs" using False by (simp add: takeWhile_eq_all_conv)
  moreover have "length (takeWhile P xs) \<le> length xs" by (rule length_takeWhile_le)
  ultimately have "length (takeWhile P xs) < length xs"
    by (metis le_neq_implies_less takeWhile_eq_take take_all order_refl)
  with False show ?thesis by (auto simp: tw)
qed

lemma createSnapshot_spaces_calls:
  "createSnapshot_spaces cl snapName spacesHosts = (r, info, calls) \<Longrightarrow>
     map fst calls = map (\<lambda>p. RPC_createSnapshot (fst p) snapName (snd p))
        (take (Suc (length (takeWhile (created cl snapName) (pairs_of spacesHosts)))) (pairs_of spacesHosts)) \<and>
     r = (if \<forall>p\<in>set (pairs_of spacesHosts). created cl snapName p then None else Some E_RPC_FAILURE)"
proof (induction spacesHosts arbitrary: r info calls)
  case Nil
  then show ?case by (simp add: pairs_of_def)
next
  case (Cons sh shs)
  let ?P = "created cl snapName"
  let ?xs = "map (Pair (fst sh)) (snd sh)"
  obtain r1 infos1 calls1 where h: "createSnapshot_hosts cl snapName (fst sh) (snd sh) = (r1, infos1, calls1)"
    by (cases "createSnapshot_hosts cl snapName (fst sh) (snd sh)") auto
  note hc = createSnapshot_hosts_calls [OF h]
  have p: "pairs_of (sh # shs) = ?xs @ pairs_of shs" by (simp add: pairs_of_def)
  show ?case
  proof (cases r1)
    case (Some e)
    with hc have nall: "\<not> (\<forall>x\<in>set ?xs. ?P x)" and e: "e = E_RPC_FAILURE"
      by (auto split: if_splits)
    from Some h Cons.prems have eq: "calls = calls1" "r = Some e" by auto
    have tk: "take (Suc (length (takeWhile ?P (?xs @ pairs_of shs)))) (?xs @ pairs_of shs)
        = take (Suc (length (takeWhile ?P ?xs))) ?xs"
      unfolding take_Suc_takeWhile_append by (rule if_not_P) (rule nall)
    have "map fst calls = map (\<lambda>p. RPC_createSnapshot (fst p) snapName (snd p))
        (take (Suc (length (takeWhile ?P (?xs @ pairs_of shs)))) (?xs @ pairs_of shs))"
      unfolding tk eq using hc by simp
    moreover have "\<not> (\<forall>p\<in>set (?xs @ pairs_of shs). ?P p)" using nall by auto
    ultimately show ?thesis unfolding p eq e by simp
  next
    case None
    with hc have all: "\<forall>x\<in>set ?xs. ?P x" by (auto split: if_splits)
    then have tw: "takeWhile ?P ?xs = ?xs" by (simp add: takeWhile_eq_all_conv)
    have full: "take (Suc (length (takeWhile ?P ?xs))) ?xs = ?xs"
      unfolding tw by (rule take_all) simp
    obtain r2 info2 calls2 where rec: "createSnapshot_spaces cl snapName shs = (r2, info2, calls2)"
      by (cases "createSnapshot_spaces cl snapName shs") auto
    from None h rec Cons.prems have eq: "calls = calls1 @ calls2" "r = r2" by auto
    have c1: "map fst calls1 = map (\<lambda>p. RPC_createSnapshot (fst p) snapName (snd p)) ?xs"
      using hc full by simp
    have tk: "take (Suc (length (takeWhile ?P (?xs @ pairs_of shs)))) (?xs @ pairs_of shs)
        = ?xs @ take (Suc (length (takeWhile ?P (pairs_of shs)))) (pairs_of shs)"
      unfolding take_Suc_takeWhile_append by (rule if_P) (rule all)
    have "map fst calls = map (\<lambda>p. RPC_createSnapshot (fst p) snapName (snd p))
        (take (Suc (length (takeWhile ?P (?xs @ pairs_of shs)))) (?xs @ pairs_of shs))"
      unfolding tk eq using c1 Cons.IH [OF rec] by simp
    moreover have "(\<forall>p\<in>set (?xs @ pairs_of shs). ?P p) = (\<forall>p\<in>set (pairs_of shs). ?P p)"
      using all by auto
    ultimately show ?thesis unfolding p eq using Cons.IH [OF rec] by simp
  qed
qed

text \<open>
  Claim C5, as the code has it.  When the enumeration of the hosts succeeds,
  \<^verbatim>\<open>dropSnapshot\<close> calls every (space, host) pair whose host is in the given list,
  whatever the hosts answer, and returns \<open>SUCCEEDED\<close>.  \<^verbatim>\<open>createSnapshot\<close> calls the
  pairs in order up to and including the first one that fails, calls no pair after it,
  and returns \<open>E_RPC_FAILURE\<close> when a pair fails.
\<close>

theorem snapshot_best_effort:
  "getSpacesHosts utils kvRet store spaces = Inr spacesHosts \<Longrightarrow>
   fst (dropSnapshot utils cl kvRet store spaces snapName hosts) = SUCCEEDED \<and>
   map fst (snd (dropSnapshot utils cl kvRet store spaces snapName hosts)) =
     map (\<lambda>p. RPC_dropSnapshot (fst p) snapName (snd p))
       (filter (\<lambda>p. snd p \<in> set hosts) (pairs_of spacesHosts)) \<and>
   map fst (snd (createSnapshot utils cl kvRet store spaces snapName)) =
     map (\<lambda>p. RPC_createSnapshot (fst p) snapName (snd p))
       (take (Suc (length (takeWhile (created cl snapName) (pairs_of spacesHosts))))
          (pairs_of spacesHosts)) \<and>
   ((\<exists>p\<in>set (pairs_of spacesHosts). \<not> created cl snapName p) \<longrightarrow>
      fst (createSnapshot utils cl kvRet store spaces snapName) = Inl E_RPC_FAILURE)"
proof -
  assume g: "getSpacesHosts utils kvRet store spaces = Inr spacesHosts"
  obtain r info calls where c: "createSnapshot_spaces cl snapName spacesHosts = (r, info, calls)"
    by (cases "createSnapshot_spaces cl snapName spacesHosts") auto
  note cc = createSnapshot_spaces_calls [OF c]
  have cs: "snd (createSnapshot utils cl kvRet store spaces snapName) = calls"
    using g c by (cases r) (simp_all add: createSnapshot_def)
  have cf: "r = Some E_RPC_FAILURE \<Longrightarrow>
      fst (createSnapshot utils cl kvRet store spaces snapName) = Inl E_RPC_FAILURE"
    using g c by (simp add: createSnapshot_def)
  have d1: "fst (dropSnapshot utils cl kvRet store spaces snapName hosts) = SUCCEEDED"
    using g by (simp add: dropSnapshot_def)
  have d2: "map fst (snd (dropSnapshot utils cl kvRet store spaces snapName hosts)) =
     map (\<lambda>p. RPC_dropSnapshot (fst p) snapName (snd p))
       (filter (\<lambda>p. snd p \<in> set hosts) (pairs_of spacesHosts))"
    using g by (simp add: dropSnapshot_def dropSnapshot_spaces_calls comp_def)
  from cc cs cf d1 d2 show ?thesis by auto
qed

theorem snapshot_best_effort_witness:
  "fst (dropSnapshot exampleUtils
          \<lparr>client_createSnapshot = (\<lambda>s n h. if h = 1 then None else Some ''cp''),
           client_dropSnapshot = (\<lambda>s n h. h \<noteq> 1), client_blockingWrites = (\<lambda>s sg h. True)\<rparr>
          ResultCode_SUCCEEDED [(partPrefix exampleUtils 1 @ le32 1, [CHR 0x01, CHR 0x02])] {}
          ''snap'' [1, 2]) = SUCCEEDED \<and>
   map fst (snd (dropSnapshot exampleUtils
          \<lparr>client_createSnapshot = (\<lambda>s n h. if h = 1 then None else Some ''cp''),
           client_dropSnapshot = (\<lambda>s n h. h \<noteq> 1), client_blockingWrites = (\<lambda>s sg h. True)\<rparr>
          ResultCode_SUCCEEDED [(partPrefix exampleUtils 1 @ le32 1, [CHR 0x01, CHR 0x02])] {}
          ''snap'' [1, 2])) = [RPC_dropSnapshot 1 ''snap'' 1, RPC_dropSnapshot 1 ''snap'' 2] \<and>
   map fst (snd (createSnapshot exampleUtils
          \<lparr>client_createSnapshot = (\<lambda>s n h. if h = 1 then None else Some ''cp''),
           client_dropSnapshot = (\<lambda>s n h. h \<noteq> 1), client_blockingWrites = (\<lambda>s sg h. True)\<rparr>
          ResultCode_SUCCEEDED [(partPrefix exampleUtils 1 @ le32 1, [CHR 0x01, CHR 0x02])] {}
          ''snap'')) = [RPC_createSnapshot 1 ''snap'' 1]"
  using snapshot_best_effort [OF example_getSpacesHosts,
      of "\<lparr>client_createSnapshot = (\<lambda>s n h. if h = 1 then None else Some ''cp''),
           client_dropSnapshot = (\<lambda>s n h. h \<noteq> 1), client_blockingWrites = (\<lambda>s sg h. True)\<rparr>"
         "''snap''" "[1, 2]"]
  by (simp add: pairs_of_def created_def)

text \<open>
  The claim as stated has \<^verbatim>\<open>createSnapshot\<close> go on after a failed host.  With hosts 1
  and 2 in space 1 and host 1 failing, host 2 is never called.
\<close>

theorem createSnapshot_stops_counterexample:
  "getSpacesHosts exampleUtils ResultCode_SUCCEEDED
     [(partPrefix exampleUtils 1 @ le32 1, [CHR 0x01, CHR 0x02])] {} = Inr [(1, [1, 2])] \<and>
   createSnapshot exampleUtils
     \<lparr>client_createSnapshot = (\<lambda>s n h. if h = 1 then None else Some ''cp''),
      client_dropSnapshot = (\<lambda>s n h. True), client_blockingWrites = (\<lambda>s sg h. True)\<rparr>
     ResultCode_SUCCEEDED [(partPrefix exampleUtils 1 @ le32 1, [CHR 0x01, CHR 0x02])] {} ''snap''
   = (Inl E_RPC_FAILURE, [(RPC_createSnapshot 1 ''snap'' 1, False)])"
  by (simp add: createSnapshot_def example_getSpacesHosts)

subsection \<open>CreateBackupProcessor\<close>

lemma blockingWrites_hosts_sign:
  "c \<in> set (snd (blockingWrites_hosts cl sign space hs ret)) \<Longrightarrow>
   \<exists>h ok. c = (RPC_blockingWrites space sign h, ok)"
proof (induction hs arbitrary: ret)
  case Nil
  then show ?case by simp
next
  case (Cons a hs)
  have ih: "c \<in> set calls \<Longrightarrow> \<exists>h ok. c = (RPC_blockingWrites space sign h, ok)"
    if "blockingWrites_hosts cl sign space hs r0 = (r, calls)" for r0 r calls
    using Cons.IH [of r0] that by simp
  from Cons.prems show ?case
    by (auto split: if_splits prod.splits dest: ih)
qed

lemma blockingWrites_spaces_sign:
  "c \<in> set (snd (blockingWrites_spaces cl sign spacesHosts ret)) \<Longrightarrow>
   \<exists>s h ok. c = (RPC_blockingWrites s sign h, ok)"
proof (induction spacesHosts arbitrary: ret)
  case Nil
  then show ?case by simp
next
  case (Cons sh shs)
  obtain ret' calls where h: "blockingWrites_hosts cl sign (fst sh) (snd sh) ret = (ret', calls)"
    by (cases "blockingWrites_hosts cl sign (fst sh) (snd sh) ret") auto
  obtain r calls' where s: "blockingWrites_spaces cl sign shs ret' = (r, calls')"
    by (cases "blockingWrites_spaces cl sign shs ret'") auto
  from Cons.prems h s have "c \<in> set calls \<or> c \<in> set calls'" by auto
  then show ?case
  proof
    assume "c \<in> set calls"
    with h blockingWrites_hosts_sign [of c cl sign "fst sh" "snd sh" ret] show ?thesis by auto
  next
    assume "c \<in> set calls'"
    with s Cons.IH [of ret'] show ?thesis by auto
  qed
qed

lemma blockingWrites_sign:
  "c \<in> set (snd (blockingWrites utils cl kvRet store spaces sign)) \<Longrightarrow>
   \<exists>s h ok. c = (RPC_blockingWrites s sign h, ok)"
  using blockingWrites_spaces_sign [of c cl sign]
  by (auto simp: blockingWrites_def split: sum.splits)

lemma createSnapshot_only_creates:
  "c \<in> set (snd (createSnapshot utils cl kvRet store spaces snapName)) \<Longrightarrow>
   \<exists>s h. fst c = RPC_createSnapshot s snapName h"
proof (cases "getSpacesHosts utils kvRet store spaces")
  case (Inl e)
  assume "c \<in> set (snd (createSnapshot utils cl kvRet store spaces snapName))"
  with Inl show ?thesis by (simp add: createSnapshot_def)
next
  case (Inr spacesHosts)
  assume c: "c \<in> set (snd (createSnapshot utils cl kvRet store spaces snapName))"
  obtain r info calls where cs: "createSnapshot_spaces cl snapName spacesHosts = (r, info, calls)"
    by (cases "createSnapshot_spaces cl snapName spacesHosts") auto
  from Inr cs have "snd (createSnapshot utils cl kvRet store spaces snapName) = calls"
    by (cases r) (simp_all add: createSnapshot_def)
  with c have "fst c \<in> set (map fst calls)" by simp
  with createSnapshot_spaces_calls [OF cs] show ?thesis by auto
qed

text \<open>
  Claim C6.  When the request reaches the export of the meta SST files (this server
  leads, no index is rebuilding, there are active hosts and spaces, the blocking of
  writes and the creation of the checkpoints succeeded) and \<^verbatim>\<open>MetaServiceUtils::backup\<close>
  has no value, the request completes with \<open>E_BACKUP_FAILURE\<close>, the calls made to the
  storage hosts are those of \<^verbatim>\<open>blockingWrites(BLOCK_ON)\<close> and of \<^verbatim>\<open>createSnapshot\<close>, no
  \<^verbatim>\<open>blockingWrites(BLOCK_OFF)\<close> call has been sent to any storage host, and the metadata
  partition is as it was (no snapshot record has been written, in particular none
  with status \<open>VALID\<close>).
\<close>

theorem CreateBackup_meta_export_failure:
  assumes "isLeader env"
    and "isIndexRebuilding utils (rebuildRc env) store = Inr False"
    and "activeHostsRet env = Inr hosts" and "hosts \<noteq> []"
    and "spaceNameToId utils (spacesRc env) store (req_spaces req) = Some (Inr spaces)"
    and "fst (blockingWrites utils (adminClient env) (blockOnRc env) store (set spaces) BLOCK_ON)
           = SUCCEEDED"
    and "fst (createSnapshot utils (adminClient env) (snapshotRc env) store (set spaces)
                (''BACKUP_'' @ timestampStr env)) = Inr snapshotInfo"
    and "backupFiles env = None"
  shows "\<exists>out. CreateBackupProcessor_process utils env req store = Some out \<and>
           resp_code out = E_BACKUP_FAILURE \<and>
           rpc_calls out =
             snd (blockingWrites utils (adminClient env) (blockOnRc env) store (set spaces) BLOCK_ON)
             @ snd (createSnapshot utils (adminClient env) (snapshotRc env) store (set spaces)
                      (''BACKUP_'' @ timestampStr env)) \<and>
           (\<forall>c\<in>set (rpc_calls out). \<forall>s h. fst c \<noteq> RPC_blockingWrites s BLOCK_OFF h) \<and>
           store_after out = store \<and> resp_meta out = None"
proof -
  obtain calls1 where b: "blockingWrites utils (adminClient env) (blockOnRc env) store (set spaces) BLOCK_ON
      = (SUCCEEDED, calls1)"
    using assms(6) by (cases "blockingWrites utils (adminClient env) (blockOnRc env) store (set spaces) BLOCK_ON") auto
  obtain calls2 where c: "createSnapshot utils (adminClient env) (snapshotRc env) store (set spaces)
                (''BACKUP_'' @ timestampStr env) = (Inr snapshotInfo, calls2)"
    using assms(7) by (cases "createSnapshot utils (adminClient env) (snapshotRc env) store (set spaces)
                (''BACKUP_'' @ timestampStr env)") auto
  have run: "CreateBackupProcessor_process utils env req store =
      Some \<lparr>resp_code = E_BACKUP_FAILURE, resp_meta = None, store_after = store,
            rpc_calls = calls1 @ calls2\<rparr>"
    using assms(1-5,8) b c by (simp add: CreateBackupProcessor_process_def finished_def Let_def)
  have n1: "\<forall>s h. fst x \<noteq> RPC_blockingWrites s BLOCK_OFF h" if "x \<in> set calls1" for x
    using blockingWrites_sign [of x utils "adminClient env" "blockOnRc env" store "set spaces" BLOCK_ON]
      that b by auto
  have n2: "\<forall>s h. fst x \<noteq> RPC_blockingWrites s BLOCK_OFF h" if "x \<in> set calls2" for x
    using createSnapshot_only_creates [of x utils "adminClient env" "snapshotRc env" store "set spaces"
        "''BACKUP_'' @ timestampStr env"] that c by auto
  show ?thesis unfolding run using n1 n2 b c by auto
qed

theorem CreateBackup_meta_export_failure_witness:
  "\<exists>out. CreateBackupProcessor_process exampleUtils
     \<lparr>isLeader = True, rebuildRc = ResultCode_SUCCEEDED, activeHostsRet = Inr [1, 2],
      spacesRc = ResultCode_SUCCEEDED, timestampStr = ''2020'', blockOnRc = ResultCode_SUCCEEDED,
      snapshotRc = ResultCode_SUCCEEDED, backupFiles = None,
      blockOffRc = ResultCode_SUCCEEDED, putRc = ResultCode_SUCCEEDED,
      spaceGetRc = (\<lambda>s. ResultCode_SUCCEEDED),
      adminClient = \<lparr>client_createSnapshot = (\<lambda>s n h. Some ''cp''),
                      client_dropSnapshot = (\<lambda>s n h. True),
                      client_blockingWrites = (\<lambda>s sign h. True)\<rparr>\<rparr>
     \<lparr>req_spaces = None\<rparr>
     [(indexSpaceKey exampleUtils ''S'', le32 1),
      (spaceKey exampleUtils 1, ''descS''),
      (indexSpaceKey exampleUtils ''T'', le32 2),
      (spaceKey exampleUtils 2, ''descT''),
      (partPrefix exampleUtils 1 @ le32 1, [CHR 0x01, CHR 0x02]),
      (partPrefix exampleUtils 2 @ le32 1, [CHR 0x01, CHR 0x02])] = Some out \<and>
    resp_code out = E_BACKUP_FAILURE \<and>
    store_after out =
     [(indexSpaceKey exampleUtils ''S'', le32 1),
      (spaceKey exampleUtils 1, ''descS''),
      (indexSpaceKey exampleUtils ''T'', le32 2),
      (spaceKey exampleUtils 2, ''descT''),
      (partPrefix exampleUtils 1 @ le32 1, [CHR 0x01, CHR 0x02]),
      (partPrefix exampleUtils 2 @ le32 1, [CHR 0x01, CHR 0x02])] \<and>
    resp_meta out = None"
proof -
  let ?cl = "\<lparr>client_createSnapshot = (\<lambda>s n h. Some ''cp''),
                      client_dropSnapshot = (\<lambda>s n h. True),
                      client_blockingWrites = (\<lambda>s sign h. True)\<rparr> :: nat AdminClient"
  let ?env = "\<lparr>isLeader = True, rebuildRc = ResultCode_SUCCEEDED, activeHostsRet = Inr [1, 2],
      spacesRc = ResultCode_SUCCEEDED, timestampStr = ''2020'', blockOnRc = ResultCode_SUCCEEDED,
      snapshotRc = ResultCode_SUCCEEDED, backupFiles = None,
      blockOffRc = ResultCode_SUCCEEDED, putRc = ResultCode_SUCCEEDED,
      spaceGetRc = (\<lambda>s. ResultCode_SUCCEEDED), adminClient = ?cl\<rparr>"
  let ?store = "[(indexSpaceKey exampleUtils ''S'', le32 1),
      (spaceKey exampleUtils 1, ''descS''),
      (indexSpaceKey exampleUtils ''T'', le32 2),
      (spaceKey exampleUtils 2, ''descT''),
      (partPrefix exampleUtils 1 @ le32 1, [CHR 0x01, CHR 0x02]),
      (partPrefix exampleUtils 2 @ le32 1, [CHR 0x01, CHR 0x02])]"
  have h1: "isLeader ?env" by simp
  have h2: "isIndexRebuilding exampleUtils (rebuildRc ?env) ?store = Inr False"
    by (simp add: example_rebuilding)
  have h3: "activeHostsRet ?env = Inr [1, 2]" by simp
  have h4: "[1, 2 :: nat] \<noteq> []" by simp
  have h5: "spaceNameToId exampleUtils (spacesRc ?env) ?store (req_spaces \<lparr>req_spaces = None\<rparr>)
      = Some (Inr [1, 2])"
    by (simp add: example_spaces)
  have h6: "fst (blockingWrites exampleUtils (adminClient ?env) (blockOnRc ?env) ?store (set [1, 2]) BLOCK_ON)
      = SUCCEEDED"
    by (simp add: blockingWrites_def insert_commute example_parts)
  have h7: "fst (createSnapshot exampleUtils (adminClient ?env) (snapshotRc ?env) ?store (set [1, 2])
      (''BACKUP_'' @ timestampStr ?env))
      = Inr [(1, [(1, ''cp''), (2, ''cp'')]), (2, [(1, ''cp''), (2, ''cp'')])]"
    by (simp add: createSnapshot_def insert_commute example_parts)
  have h8: "backupFiles ?env = None" by simp
  from CreateBackup_meta_export_failure [OF h1 h2 h3 h4 h5 h6 h7 h8]
  show ?thesis by blast
qed

text \<open>
  Claim C2, on the code.  Two spaces on two storage hosts; host 2 answers
  \<^verbatim>\<open>blockingWrites(BLOCK_ON)\<close> with a failure.  The request completes with
  \<open>E_BLOCK_WRITE_FAILURE\<close> and \<^verbatim>\<open>BLOCK_OFF\<close> is sent to every host of every space, as
  the claim says; but the metadata partition afterwards is the partition before the
  request: it holds no record under \<^verbatim>\<open>snapshotKey(backupName)\<close>, neither \<open>INVALID\<close>
  nor \<open>VALID\<close>.
\<close>

theorem CreateBackup_blockOn_failure_leaves_no_record:
  "CreateBackupProcessor_process exampleUtils
     \<lparr>isLeader = True, rebuildRc = ResultCode_SUCCEEDED, activeHostsRet = Inr [1, 2],
      spacesRc = ResultCode_SUCCEEDED, timestampStr = ''2020'', blockOnRc = ResultCode_SUCCEEDED,
      snapshotRc = ResultCode_SUCCEEDED, backupFiles = Some [''meta.sst''],
      blockOffRc = ResultCode_SUCCEEDED, putRc = ResultCode_SUCCEEDED,
      spaceGetRc = (\<lambda>s. ResultCode_SUCCEEDED),
      adminClient = \<lparr>client_createSnapshot = (\<lambda>s n h. Some ''cp''),
                      client_dropSnapshot = (\<lambda>s n h. True),
                      client_blockingWrites = (\<lambda>s sign h. sign = BLOCK_OFF \<or> h \<noteq> 2)\<rparr>\<rparr>
     \<lparr>req_spaces = None\<rparr>
     [(indexSpaceKey exampleUtils ''S'', le32 1),
      (spaceKey exampleUtils 1, ''descS''),
      (indexSpaceKey exampleUtils ''T'', le32 2),
      (spaceKey exampleUtils 2, ''descT''),
      (partPrefix exampleUtils 1 @ le32 1, [CHR 0x01, CHR 0x02]),
      (partPrefix exampleUtils 2 @ le32 1, [CHR 0x01, CHR 0x02])]
   = Some \<lparr>resp_code = E_BLOCK_WRITE_FAILURE, resp_meta = None,
           store_after =
             [(indexSpaceKey exampleUtils ''S'', le32 1),
              (spaceKey exampleUtils 1, ''descS''),
              (indexSpaceKey exampleUtils ''T'', le32 2),
              (spaceKey exampleUtils 2, ''descT''),
              (partPrefix exampleUtils 1 @ le32 1, [CHR 0x01, CHR 0x02]),
              (partPrefix exampleUtils 2 @ le32 1, [CHR 0x01, CHR 0x02])],
           rpc_calls =
             [(RPC_blockingWrites 1 BLOCK_ON 1, True), (RPC_blockingWrites 1 BLOCK_ON 2, False),
              (RPC_blockingWrites 2 BLOCK_ON 1, True), (RPC_blockingWrites 2 BLOCK_ON 2, False),
              (RPC_blockingWrites 1 BLOCK_OFF 1, True), (RPC_blockingWrites 1 BLOCK_OFF 2, True),
              (RPC_blockingWrites 2 BLOCK_OFF 1, True), (RPC_blockingWrites 2 BLOCK_OFF 2, True)]\<rparr> \<and>
   map_of
     [(indexSpaceKey exampleUtils ''S'', le32 1),
      (spaceKey exampleUtils 1, ''descS''),
      (indexSpaceKey exampleUtils ''T'', le32 2),
      (spaceKey exampleUtils 2, ''descT''),
      (partPrefix exampleUtils 1 @ le32 1, [CHR 0x01, CHR 0x02]),
      (partPrefix exampleUtils 2 @ le32 1, [CHR 0x01, CHR 0x02])]
     (snapshotKey exampleUtils ''BACKUP_2020'') = None"
proof (intro conjI)
  show "map_of
     [(indexSpaceKey exampleUtils ''S'', le32 1),
      (spaceKey exampleUtils 1, ''descS''),
      (indexSpaceKey exampleUtils ''T'', le32 2),
      (spaceKey exampleUtils 2, ''descT''),
      (partPrefix exampleUtils 1 @ le32 1, [CHR 0x01, CHR 0x02]),
      (partPrefix exampleUtils 2 @ le32 1, [CHR 0x01, CHR 0x02])]
     (snapshotKey exampleUtils ''BACKUP_2020'') = None"
    by (simp add: exampleUtils_def le32_values)
qed (simp add: CreateBackupProcessor_process_def example_rebuilding example_spaces
      blockingWrites_def finished_def insert_commute example_parts)

subsection \<open>buildPlan\<close>

lemma yield_needs_data_iff:
  "yield_needs_data ys fs = (\<exists>c\<in>set ys. c \<notin> set propsInKey \<and> c \<notin> name ` set fs)"
  by (induction ys) (auto simp: find_None_iff)

lemma buildPlan_ctx_step:
  assumes "buildPlan_ctx p st ctx = Inr st'"
  shows "index_of p ctx \<noteq> None \<and>
         plan_nodes st' = plan_nodes st @ chain_from (next_alloc st) [] (ctx_chain p ctx) \<and>
         next_alloc st' = next_alloc st + length (ctx_chain p ctx) \<and>
         deDup st' = (deDup st)\<lparr>dependencies :=
            dependencies (deDup st) @ [next_alloc st + length (ctx_chain p ctx) - 1]\<rparr>"
proof (cases "index_of p ctx")
  case None
  with assms show ?thesis by (simp add: buildPlan_ctx_def index_of_def)
next
  case (Some index)
  define nd where "nd = needData_spec p ctx index"
  define nf where "nf = needFilter_spec p ctx index"
  have out: "(has_filter ctx \<and> isOutsideIndex (decode p (get_filter ctx)) index) = outside_spec p ctx index"
    by (auto simp: has_filter_def get_filter_def outside_spec_def split: option.splits)
  have nd: "(if has_filter ctx \<and> isOutsideIndex (decode p (get_filter ctx)) index then True
             else yield_needs_data (yieldCols p) (get_fields index)) = nd"
    unfolding out by (auto simp: nd_def needData_spec_def yield_needs_data_iff propsInKey_def)
  have nf: "(if has_filter ctx \<and> isOutsideIndex (decode p (get_filter ctx)) index then True
             else has_filter ctx) = nf"
    unfolding out by (auto simp: nf_def needFilter_spec_def has_filter_def)
  have idx: "(if isEdge p then getEdgeIndex p (index_id ctx) else getTagIndex p (index_id ctx)) = Some index"
    using Some by (simp add: index_of_def)
  have cc: "ctx_chain p ctx = spec_chain (isEdge p) nd nf"
    using Some by (simp add: ctx_chain_def nd_def nf_def)
  note run = assms [unfolded buildPlan_ctx_def Let_def idx option.case nd nf]
  show ?thesis
  proof (cases nd; cases nf)
    assume c: "\<not> nd" "\<not> nf"
    with run show ?thesis unfolding cc
      by (auto simp: Some spec_chain_def buildPlanBasic_def make_unique_def addDependency_def)
  next
    assume c: "nd" "\<not> nf"
    with run show ?thesis unfolding cc
      by (cases "isEdge p")
         (auto simp: Some spec_chain_def fetch_node_def buildPlanWithData_def make_unique_def
            addDependency_def)
  next
    assume c: "\<not> nd" "nf"
    with run show ?thesis unfolding cc
      by (auto simp: Some spec_chain_def buildPlanWithFilter_def make_unique_def addDependency_def)
  next
    assume c: "nd" "nf"
    with run have ne: "\<not> schemas_empty p" by (auto split: if_splits)
    with c run show ?thesis unfolding cc
      by (cases "isEdge p")
         (auto simp: Some spec_chain_def fetch_node_def buildPlanWithDataAndFilter_def
            make_unique_def addDependency_def)
  qed
qed

lemma buildPlan_loop_closed:
  "buildPlan_loop p st ctxs = Inr st' \<Longrightarrow>
     (\<forall>ctx\<in>set ctxs. index_of p ctx \<noteq> None) \<and>
     plan_nodes st' = plan_nodes st @ layout (next_alloc st) (map (ctx_chain p) ctxs) \<and>
     dependencies (deDup st') = dependencies (deDup st) @ outs (next_alloc st) (map (ctx_chain p) ctxs) \<and>
     node_id (deDup st') = node_id (deDup st) \<and>
     node_type (deDup st') = node_type (deDup st)"
proof (induction ctxs arbitrary: st)
  case Nil
  then show ?case by simp
next
  case (Cons ctx ctxs)
  from Cons.prems obtain st1 where s1: "buildPlan_ctx p st ctx = Inr st1"
    and rest: "buildPlan_loop p st1 ctxs = Inr st'"
    by (auto split: sum.splits)
  note step = buildPlan_ctx_step [OF s1]
  note ih = Cons.IH [OF rest]
  from step have d1: "dependencies (deDup st1) =
      dependencies (deDup st) @ [next_alloc st + length (ctx_chain p ctx) - 1]"
    and i1: "node_id (deDup st1) = node_id (deDup st)"
    and t1: "node_type (deDup st1) = node_type (deDup st)"
    by simp_all
  from step ih d1 i1 t1 show ?case by simp
qed

lemma buildPlan_closed:
  assumes "buildPlan p = Inr plan"
  shows "(\<forall>ctx\<in>set (contexts p). index_of p ctx \<noteq> None) \<and>
         plan = layout 2 (map (ctx_chain p) (contexts p)) @
           [\<lparr>node_id = 1, node_type = DeDupNode,
             dependencies = outs 2 (map (ctx_chain p) (contexts p))\<rparr>,
            \<lparr>node_id = 0, node_type = AggregateNode, dependencies = [1]\<rparr>]"
proof -
  let ?st = "\<lparr>next_alloc = 2, plan_nodes = [], deDup = make_unique 1 DeDupNode, filterId = 0,
                filterItems = []\<rparr>"
  from assms obtain st' where l: "buildPlan_loop p ?st (contexts p) = Inr st'"
    and pl: "plan = plan_nodes st' @ [deDup st'] @ [addDependency (make_unique 0 AggregateNode) (deDup st')]"
    by (auto simp: buildPlan_def Let_def split: sum.splits)
  note c = buildPlan_loop_closed [OF l]
  have dd: "deDup st' = \<lparr>node_id = 1, node_type = DeDupNode,
             dependencies = outs 2 (map (ctx_chain p) (contexts p))\<rparr>"
    using c by (cases "deDup st'") (simp add: make_unique_def)
  show ?thesis using c unfolding pl dd by (simp add: addDependency_def make_unique_def)
qed

lemma chain_from_ids: "map node_id (chain_from a deps ts) = [a..<a + length ts]"
proof (induction ts arbitrary: a deps)
  case Nil
  then show ?case by simp
next
  case (Cons t ts)
  have "[a..<a + length (t # ts)] = a # [Suc a..<a + length (t # ts)]"
    by (rule upt_conv_Cons) simp
  moreover have "a + length (t # ts) = Suc a + length ts" by simp
  ultimately have "[a..<a + length (t # ts)] = a # [Suc a..<Suc a + length ts]"
    by (simp only:)
  with Cons.IH [of "Suc a" "[a]"] show ?case by (simp only: chain_from.simps list.map PlanNode.simps)
qed

lemma chain_from_nth:
  "j < length ts \<Longrightarrow>
   chain_from a deps ts ! j =
     \<lparr>node_id = a + j, node_type = ts ! j, dependencies = (if j = 0 then deps else [a + j - 1])\<rparr>"
proof (induction ts arbitrary: a deps j)
  case Nil
  then show ?case by simp
next
  case (Cons t ts)
  show ?case
  proof (cases j)
    case 0
    then show ?thesis by simp
  next
    case (Suc k)
    with Cons.prems have "k < length ts" by simp
    from Cons.IH [OF this, of "Suc a" "[a]"] Suc show ?thesis by (cases k) simp_all
  qed
qed

lemma chain_from_types: "n \<in> set (chain_from a deps ts) \<Longrightarrow> node_type n \<in> set ts"
  by (induction ts arbitrary: a deps) auto

lemma chain_from_deps:
  "n \<in> set (chain_from a deps ts) \<Longrightarrow> d \<in> set (dependencies n) \<Longrightarrow> d \<in> set deps \<or> a \<le> d"
proof (induction ts arbitrary: a deps)
  case Nil
  then show ?case by simp
next
  case (Cons t ts)
  from Cons.prems(1) consider "n = \<lparr>node_id = a, node_type = t, dependencies = deps\<rparr>"
    | "n \<in> set (chain_from (Suc a) [a] ts)" by auto
  then show ?case
  proof cases
    case 1
    with Cons.prems(2) show ?thesis by simp
  next
    case 2
    from Cons.IH [OF 2 Cons.prems(2)] show ?thesis by auto
  qed
qed

lemma layout_ids: "map node_id (layout a tss) = [a..<a + sum_list (map length tss)]"
proof (induction tss arbitrary: a)
  case Nil
  then show ?case by simp
next
  case (Cons ts tss)
  have "[a..<a + (length ts + sum_list (map length tss))] =
        [a..<a + length ts] @ [a + length ts..<a + length ts + sum_list (map length tss)]"
    using upt_add_eq_append [of a "a + length ts" "sum_list (map length tss)"]
    by (simp add: add.assoc)
  with Cons.IH [of "a + length ts"] show ?case by (simp add: chain_from_ids)
qed

lemma layout_types: "n \<in> set (layout a tss) \<Longrightarrow> \<exists>ts\<in>set tss. node_type n \<in> set ts"
  by (induction tss arbitrary: a) (auto dest: chain_from_types)

lemma layout_deps: "n \<in> set (layout a tss) \<Longrightarrow> d \<in> set (dependencies n) \<Longrightarrow> a \<le> d"
proof (induction tss arbitrary: a)
  case Nil
  then show ?case by simp
next
  case (Cons ts tss)
  from Cons.prems(1) consider "n \<in> set (chain_from a [] ts)" | "n \<in> set (layout (a + length ts) tss)"
    by auto
  then show ?case
  proof cases
    case 1
    from chain_from_deps [OF 1 Cons.prems(2)] show ?thesis by simp
  next
    case 2
    from Cons.IH [OF 2 Cons.prems(2)] show ?thesis by simp
  qed
qed

lemma outs_ge: "d \<in> set (outs a tss) \<Longrightarrow> \<forall>ts\<in>set tss. ts \<noteq> [] \<Longrightarrow> a \<le> d"
proof (induction tss arbitrary: a)
  case Nil
  then show ?case by simp
next
  case (Cons ts tss)
  from Cons.prems(2) have ne: "ts \<noteq> []" and rest: "\<forall>ts\<in>set tss. ts \<noteq> []" by simp_all
  from Cons.prems(1) consider "d = a + length ts - 1" | "d \<in> set (outs (a + length ts) tss)" by auto
  then show ?case
  proof cases
    case 1
    with ne show ?thesis by (cases ts) simp_all
  next
    case 2
    from Cons.IH [OF 2 rest] show ?thesis by simp
  qed
qed

lemma outs_length: "length (outs a tss) = length tss"
  by (induction tss arbitrary: a) simp_all

lemma layout_split:
  "i < length tss \<Longrightarrow> \<forall>ts\<in>set tss. ts \<noteq> [] \<Longrightarrow>
   \<exists>pre post b. layout a tss = pre @ chain_from b [] (tss ! i) @ post \<and>
      (\<forall>n\<in>set pre. node_id n < b) \<and> outs a tss ! i = b + length (tss ! i) - 1"
proof (induction tss arbitrary: a i)
  case Nil
  then show ?case by simp
next
  case (Cons ts tss)
  from Cons.prems(2) have rest: "\<forall>ts\<in>set tss. ts \<noteq> []" by simp
  show ?case
  proof (cases i)
    case 0
    have "layout a (ts # tss) = [] @ chain_from a [] ((ts # tss) ! 0) @ layout (a + length ts) tss"
      by simp
    moreover have "\<forall>n\<in>set ([] :: PlanNode list). node_id n < a" by simp
    moreover have "outs a (ts # tss) ! 0 = a + length ((ts # tss) ! 0) - 1" by simp
    ultimately show ?thesis unfolding 0 by blast
  next
    case (Suc k)
    with Cons.prems have k: "k < length tss" by simp
    from Cons.IH [OF k rest, of "a + length ts"] obtain pre post b where
      l: "layout (a + length ts) tss = pre @ chain_from b [] (tss ! k) @ post"
      and lt: "\<forall>n\<in>set pre. node_id n < b"
      and o: "outs (a + length ts) tss ! k = b + length (tss ! k) - 1"
      by blast
    have ids: "map node_id (layout (a + length ts) tss) =
        [a + length ts..<a + length ts + sum_list (map length tss)]" by (rule layout_ids)
    from k rest have "tss ! k \<noteq> []" by simp
    then obtain t ts' where c: "tss ! k = t # ts'" by (cases "tss ! k") auto
    have "\<lparr>node_id = b, node_type = t, dependencies = []\<rparr> \<in> set (layout (a + length ts) tss)"
      unfolding l c by simp
    then have "node_id \<lparr>node_id = b, node_type = t, dependencies = []\<rparr>
        \<in> set (map node_id (layout (a + length ts) tss))"
      unfolding set_map by (rule imageI)
    then have ge: "a + length ts \<le> b" unfolding ids by simp
    have small: "\<forall>n\<in>set (chain_from a [] ts @ pre). node_id n < b"
    proof
      fix n assume "n \<in> set (chain_from a [] ts @ pre)"
      then consider "n \<in> set (chain_from a [] ts)" | "n \<in> set pre" by auto
      then show "node_id n < b"
      proof cases
        case 1
        then have "node_id n \<in> set (map node_id (chain_from a [] ts))" by simp
        then have "node_id n < a + length ts" unfolding chain_from_ids by simp
        with ge show ?thesis by simp
      next
        case 2
        with lt show ?thesis by simp
      qed
    qed
    have lay: "layout a (ts # tss) = (chain_from a [] ts @ pre) @ chain_from b [] ((ts # tss) ! Suc k) @ post"
      using l by simp
    have out: "outs a (ts # tss) ! Suc k = b + length ((ts # tss) ! Suc k) - 1"
      using o by simp
    from lay small out show ?thesis unfolding Suc by blast
  qed
qed

lemma find_by_id:
  "map node_id xs = [b..<b + length xs] \<Longrightarrow> j < length xs \<Longrightarrow>
   find (\<lambda>n. node_id n = b + j) xs = Some (xs ! j)"
proof -
  assume ids: "map node_id xs = [b..<b + length xs]" and j: "j < length xs"
  have nth: "node_id (xs ! k) = b + k" if "k < length xs" for k
  proof -
    from that have "node_id (xs ! k) = map node_id xs ! k" by simp
    also have "\<dots> = b + k" unfolding ids using that by simp
    finally show ?thesis .
  qed
  show ?thesis
    unfolding find_Some_iff
  proof (intro exI [of _ j] conjI allI impI)
    show "j < length xs" by (rule j)
    show "node_id (xs ! j) = b + j" by (rule nth [OF j])
    show "xs ! j = xs ! j" by simp
    fix k assume "k < j"
    with j nth [of k] show "node_id (xs ! k) \<noteq> b + j" by simp
  qed
qed

lemma find_append_skip: "\<forall>n\<in>set pre. \<not> P n \<Longrightarrow> find P (pre @ xs) = find P xs"
  by (induction pre) auto

lemma find_append_found: "find P xs = Some x \<Longrightarrow> find P (xs @ post) = Some x"
  by (induction xs) (auto split: if_splits)

lemma node_at_chain:
  assumes "\<forall>n\<in>set pre. node_id n < b" and "j < length ts"
  shows "node_at (pre @ chain_from b [] ts @ post) (b + j) = Some (chain_from b [] ts ! j)"
proof -
  have len: "length (chain_from b [] ts) = length ts"
    using chain_from_ids [of b "[]" ts] by (metis length_map length_upt add_diff_cancel_left')
  have ids: "map node_id (chain_from b [] ts) = [b..<b + length (chain_from b [] ts)]"
    unfolding len by (rule chain_from_ids)
  have f: "find (\<lambda>n. node_id n = b + j) (chain_from b [] ts) = Some (chain_from b [] ts ! j)"
    using find_by_id [OF ids] assms(2) len by simp
  have "\<forall>n\<in>set pre. \<not> node_id n = b + j" using assms(1) by auto
  then show ?thesis
    unfolding node_at_def
    by (simp only: find_append_skip find_append_found [OF f])
qed

lemma chain_to_chain:
  assumes nodes: "\<And>j. j < length ts \<Longrightarrow> node_at plan (b + j) = Some (chain_from b [] ts ! j)"
  shows "j < length ts \<Longrightarrow> chain_to (Suc j + f) plan (b + j) = Some (take (Suc j) ts)"
proof (induction j arbitrary: f)
  case 0
  then have "ts \<noteq> []" by auto
  then have t: "take (Suc 0) ts = [ts ! 0]" by (cases ts) simp_all
  from 0 nodes [of 0] chain_from_nth [of 0 ts b "[]"] show ?case
    by (simp add: t)
next
  case (Suc j)
  then have j: "j < length ts" by simp
  have n: "node_at plan (b + Suc j) = Some \<lparr>node_id = b + Suc j, node_type = ts ! Suc j,
      dependencies = [b + j]\<rparr>"
    using nodes [OF Suc.prems] chain_from_nth [OF Suc.prems, of b "[]"] by simp
  have t: "take (Suc (Suc j)) ts = take (Suc j) ts @ [ts ! Suc j]"
    using Suc.prems by (rule take_Suc_conv_app_nth)
  have "chain_to (Suc (Suc j) + f) plan (b + Suc j) =
      map_option (\<lambda>xs. xs @ [ts ! Suc j]) (chain_to (Suc j + f) plan (b + j))"
    using n by simp
  with Suc.IH [OF j, of f] t show ?case by simp
qed

lemma spec_chain_types:
  "spec_chain e nd nf \<noteq> []"
  "t \<in> set (spec_chain e nd nf) \<Longrightarrow> t \<noteq> DeDupNode \<and> t \<noteq> AggregateNode"
  by (auto simp: spec_chain_def fetch_node_def split: if_splits)

lemma ctx_chain_types:
  assumes "index_of p ctx \<noteq> None"
  shows "ctx_chain p ctx \<noteq> []"
    and "t \<in> set (ctx_chain p ctx) \<Longrightarrow> t \<noteq> DeDupNode \<and> t \<noteq> AggregateNode"
proof -
  from assms obtain index where i: "index_of p ctx = Some index" by auto
  have c: "ctx_chain p ctx = spec_chain (isEdge p) (needData_spec p ctx index) (needFilter_spec p ctx index)"
    by (simp add: ctx_chain_def i)
  show "ctx_chain p ctx \<noteq> []" unfolding c by (rule spec_chain_types(1))
  show "t \<in> set (ctx_chain p ctx) \<Longrightarrow> t \<noteq> DeDupNode \<and> t \<noteq> AggregateNode"
    unfolding c by (rule spec_chain_types(2))
qed

lemma buildPlan_structure:
  assumes "buildPlan p = Inr plan"
  defines "dd \<equiv> \<lparr>node_id = 1, node_type = DeDupNode,
             dependencies = outs 2 (map (ctx_chain p) (contexts p))\<rparr>"
    and "aggr \<equiv> \<lparr>node_id = 0, node_type = AggregateNode, dependencies = [1]\<rparr>"
  shows "filter (\<lambda>n. node_type n = DeDupNode) plan = [dd]"
    and "length (dependencies dd) = length (contexts p)"
    and "\<forall>i<length (contexts p). index_of p (contexts p ! i) \<noteq> None \<and>
           chain_to (length plan) plan (dependencies dd ! i) = Some (ctx_chain p (contexts p ! i))"
    and "consumers plan (node_id dd) = [aggr]"
    and "last plan = aggr"
    and "consumers plan (node_id aggr) = []"
    and "distinct (map node_id plan)"
proof -
  let ?tss = "map (ctx_chain p) (contexts p)"
  let ?L = "layout 2 ?tss"
  from buildPlan_closed [OF assms(1)] have idx: "\<forall>ctx\<in>set (contexts p). index_of p ctx \<noteq> None"
    and plan: "plan = ?L @ [dd, aggr]"
    by (simp_all add: dd_def aggr_def)
  have ne: "\<forall>ts\<in>set ?tss. ts \<noteq> []"
    using idx ctx_chain_types(1) by auto
  have ty: "node_type n \<noteq> DeDupNode" if "n \<in> set ?L" for n
  proof -
    from layout_types [OF that] obtain ctx where "ctx \<in> set (contexts p)"
      and "node_type n \<in> set (ctx_chain p ctx)" by auto
    with idx ctx_chain_types(2) show ?thesis by blast
  qed
  have dep2: "2 \<le> d" if "n \<in> set ?L" "d \<in> set (dependencies n)" for n d
    using layout_deps [OF that] .
  have out2: "2 \<le> d" if "d \<in> set (outs 2 ?tss)" for d
    using outs_ge [OF that ne] .
  show "filter (\<lambda>n. node_type n = DeDupNode) plan = [dd]"
  proof -
    have "filter (\<lambda>n. node_type n = DeDupNode) ?L = []"
      using ty by (simp add: filter_empty_conv)
    then show ?thesis unfolding plan by (simp add: dd_def aggr_def)
  qed
  show "length (dependencies dd) = length (contexts p)"
    by (simp add: dd_def outs_length)
  show "consumers plan (node_id dd) = [aggr]"
  proof -
    have "filter (\<lambda>n. 1 \<in> set (dependencies n)) ?L = []"
      unfolding filter_empty_conv using dep2 by fastforce
    moreover have "1 \<notin> set (outs 2 ?tss)" using out2 by fastforce
    ultimately show ?thesis unfolding plan consumers_def by (simp add: dd_def aggr_def)
  qed
  show "last plan = aggr" unfolding plan by simp
  show "consumers plan (node_id aggr) = []"
  proof -
    have "filter (\<lambda>n. 0 \<in> set (dependencies n)) ?L = []"
      unfolding filter_empty_conv using dep2 by fastforce
    moreover have "0 \<notin> set (outs 2 ?tss)" using out2 by fastforce
    ultimately show ?thesis unfolding plan consumers_def by (simp add: dd_def aggr_def)
  qed
  show "distinct (map node_id plan)"
  proof -
    define N where "N = sum_list (map length ?tss)"
    have "map node_id plan = [2..<2 + N] @ [1, 0]"
      unfolding plan N_def by (simp add: layout_ids dd_def aggr_def)
    moreover have "distinct ([2..<2 + N] @ [1, 0])" by simp
    ultimately show ?thesis by (simp only:)
  qed
  show "\<forall>i<length (contexts p). index_of p (contexts p ! i) \<noteq> None \<and>
           chain_to (length plan) plan (dependencies dd ! i) = Some (ctx_chain p (contexts p ! i))"
  proof (intro allI impI conjI)
    fix i assume i: "i < length (contexts p)"
    then show "index_of p (contexts p ! i) \<noteq> None" using idx by simp
    let ?ts = "ctx_chain p (contexts p ! i)"
    from i have i': "i < length ?tss" and nth: "?tss ! i = ?ts" by simp_all
    from layout_split [OF i' ne, of 2] obtain pre post b where
      l: "?L = pre @ chain_from b [] ?ts @ post"
      and lt: "\<forall>n\<in>set pre. node_id n < b"
      and o: "outs 2 ?tss ! i = b + length ?ts - 1"
      unfolding nth by blast
    have pl: "plan = pre @ chain_from b [] ?ts @ (post @ [dd, aggr])"
      unfolding plan l by simp
    have nodes: "node_at plan (b + j) = Some (chain_from b [] ?ts ! j)" if "j < length ?ts" for j
      unfolding pl by (rule node_at_chain [OF lt that])
    from ne i' nth have tsne: "?ts \<noteq> []" by (metis nth_mem)
    then have last: "length ?ts - 1 < length ?ts" by simp
    have len: "length (chain_from b [] ?ts) = length ?ts"
      using chain_from_ids [of b "[]" ?ts] by (metis length_map length_upt add_diff_cancel_left')
    have "length ?ts \<le> length plan" unfolding pl by (simp add: len)
    then have fuel: "Suc (length ?ts - 1) + (length plan - length ?ts) = length plan"
      using tsne by simp
    have "chain_to (Suc (length ?ts - 1) + (length plan - length ?ts)) plan (b + (length ?ts - 1))
        = Some (take (Suc (length ?ts - 1)) ?ts)"
      by (rule chain_to_chain [OF nodes last])
    moreover have "b + (length ?ts - 1) = dependencies dd ! i"
    proof -
      from tsne have "0 < length ?ts" by simp
      then have "b + (length ?ts - 1) = b + length ?ts - 1" by arith
      with o show ?thesis by (simp add: dd_def)
    qed
    moreover have "take (Suc (length ?ts - 1)) ?ts = ?ts" using tsne by simp
    ultimately show "chain_to (length plan) plan (dependencies dd ! i) = Some ?ts"
      unfolding fuel by simp
  qed
qed

lemma buildPlan_ctx_ok_iff:
  "(\<exists>st'. buildPlan_ctx p st ctx = Inr st') =
     (\<exists>index. index_of p ctx = Some index \<and>
        (needData_spec p ctx index \<and> needFilter_spec p ctx index \<longrightarrow> \<not> schemas_empty p))"
proof (cases "index_of p ctx")
  case None
  then show ?thesis by (simp add: buildPlan_ctx_def index_of_def)
next
  case (Some index)
  define nd where "nd = needData_spec p ctx index"
  define nf where "nf = needFilter_spec p ctx index"
  have out: "(has_filter ctx \<and> isOutsideIndex (decode p (get_filter ctx)) index) = outside_spec p ctx index"
    by (auto simp: has_filter_def get_filter_def outside_spec_def split: option.splits)
  have nd: "(if has_filter ctx \<and> isOutsideIndex (decode p (get_filter ctx)) index then True
             else yield_needs_data (yieldCols p) (get_fields index)) = nd"
    unfolding out by (auto simp: nd_def needData_spec_def yield_needs_data_iff propsInKey_def)
  have nf: "(if has_filter ctx \<and> isOutsideIndex (decode p (get_filter ctx)) index then True
             else has_filter ctx) = nf"
    unfolding out by (auto simp: nf_def needFilter_spec_def has_filter_def)
  have idx: "(if isEdge p then getEdgeIndex p (index_id ctx) else getTagIndex p (index_id ctx)) = Some index"
    using Some by (simp add: index_of_def)
  have "(\<exists>st'. buildPlan_ctx p st ctx = Inr st') = (nd \<and> nf \<longrightarrow> \<not> schemas_empty p)"
    unfolding buildPlan_ctx_def Let_def idx option.case nd nf
    by (cases nd; cases nf; cases "schemas_empty p"; cases "isEdge p")
       (simp_all add: buildPlanBasic_def buildPlanWithData_def buildPlanWithFilter_def
          buildPlanWithDataAndFilter_def Let_def)
  then show ?thesis by (simp add: Some nd_def nf_def)
qed

lemma buildPlan_loop_ok_iff:
  "(\<exists>st'. buildPlan_loop p st ctxs = Inr st') =
     (\<forall>ctx\<in>set ctxs. \<exists>index. index_of p ctx = Some index \<and>
        (needData_spec p ctx index \<and> needFilter_spec p ctx index \<longrightarrow> \<not> schemas_empty p))"
proof (induction ctxs arbitrary: st)
  case Nil
  then show ?case by simp
next
  case (Cons ctx ctxs)
  show ?case
  proof (cases "buildPlan_ctx p st ctx")
    case (Inl e)
    then have "\<not> (\<exists>st'. buildPlan_ctx p st ctx = Inr st')" by simp
    then have "\<not> (\<exists>index. index_of p ctx = Some index \<and>
        (needData_spec p ctx index \<and> needFilter_spec p ctx index \<longrightarrow> \<not> schemas_empty p))"
      unfolding buildPlan_ctx_ok_iff .
    with Inl show ?thesis by simp
  next
    case (Inr st1)
    then have "\<exists>st'. buildPlan_ctx p st ctx = Inr st'" by simp
    then have "\<exists>index. index_of p ctx = Some index \<and>
        (needData_spec p ctx index \<and> needFilter_spec p ctx index \<longrightarrow> \<not> schemas_empty p)"
      unfolding buildPlan_ctx_ok_iff .
    with Inr Cons.IH [of st1] show ?thesis by simp
  qed
qed

lemma buildPlan_ok_iff:
  "(\<exists>plan. buildPlan p = Inr plan) =
     (\<forall>ctx\<in>set (contexts p). \<exists>index. index_of p ctx = Some index \<and>
        (needData_spec p ctx index \<and> needFilter_spec p ctx index \<longrightarrow> \<not> schemas_empty p))"
proof -
  let ?st = "\<lparr>next_alloc = 2, plan_nodes = [], deDup = make_unique 1 DeDupNode, filterId = 0,
                filterItems = []\<rparr>"
  have "(\<exists>plan. buildPlan p = Inr plan) = (\<exists>st'. buildPlan_loop p ?st (contexts p) = Inr st')"
    by (cases "buildPlan_loop p ?st (contexts p)") (simp_all add: buildPlan_def Let_def)
  then show ?thesis unfolding buildPlan_loop_ok_iff .
qed

text \<open>
  Claim C3.  \<^verbatim>\<open>buildPlan\<close> returns a plan exactly when the index of every context is
  found and, for a context with both \<open>needData\<close> and \<open>needFilter\<close>, a schema is loaded;
  no builder ever makes it fail.  When it returns a plan, the plan has exactly one
  \<^verbatim>\<open>DeDupNode\<close>, with one dependency for each context, in the order of the contexts.  The dependency
  for a context is the end of a chain of single dependencies whose node types are, for
  the spec's \<open>needData\<close> and \<open>needFilter\<close> of the context: scan, output when both are
  false; scan, fetch, output when only \<open>needData\<close> holds (the fetch node is an
  \<^verbatim>\<open>IndexEdgeNode\<close> for edges and an \<^verbatim>\<open>IndexVertexNode\<close> for tags); scan, filter, output
  when only \<open>needFilter\<close> holds; scan, fetch, filter, output when both hold.  The only
  node that depends on the \<^verbatim>\<open>DeDupNode\<close> is the \<^verbatim>\<open>AggregateNode\<close>, which is the last node
  of the plan and on which no node depends.
\<close>

theorem buildPlan_chains:
  "((\<exists>plan. buildPlan p = Inr plan) \<longleftrightarrow>
      (\<forall>ctx\<in>set (contexts p). \<exists>index.
         index_of p ctx = Some index \<and>
         (needData_spec p ctx index \<and> needFilter_spec p ctx index \<longrightarrow> \<not> schemas_empty p))) \<and>
   (buildPlan p = Inr plan \<longrightarrow>
    (\<exists>dd aggr.
     filter (\<lambda>n. node_type n = DeDupNode) plan = [dd] \<and>
     length (dependencies dd) = length (contexts p) \<and>
     (\<forall>i<length (contexts p). \<exists>index.
        index_of p (contexts p ! i) = Some index \<and>
        (let needData = needData_spec p (contexts p ! i) index;
             needFilter = needFilter_spec p (contexts p ! i) index;
             chain = chain_to (length plan) plan (dependencies dd ! i)
         in (\<not> needData \<and> \<not> needFilter \<longrightarrow>
               chain = Some [IndexScanNode, IndexOutputNode]) \<and>
            (needData \<and> \<not> needFilter \<longrightarrow>
               chain = Some [IndexScanNode,
                             if isEdge p then IndexEdgeNode else IndexVertexNode,
                             IndexOutputNode]) \<and>
            (\<not> needData \<and> needFilter \<longrightarrow>
               chain = Some [IndexScanNode, IndexFilterNode, IndexOutputNode]) \<and>
            (needData \<and> needFilter \<longrightarrow>
               chain = Some [IndexScanNode,
                             if isEdge p then IndexEdgeNode else IndexVertexNode,
                             IndexFilterNode, IndexOutputNode]))) \<and>
     consumers plan (node_id dd) = [aggr] \<and>
     node_type aggr = AggregateNode \<and>
     last plan = aggr \<and>
     consumers plan (node_id aggr) = [] \<and>
     distinct (map node_id plan)))"
proof (intro conjI impI)
  show "(\<exists>plan. buildPlan p = Inr plan) \<longleftrightarrow>
      (\<forall>ctx\<in>set (contexts p). \<exists>index.
         index_of p ctx = Some index \<and>
         (needData_spec p ctx index \<and> needFilter_spec p ctx index \<longrightarrow> \<not> schemas_empty p))"
    by (rule buildPlan_ok_iff)
next
  assume built: "buildPlan p = Inr plan"
  let ?dd = "\<lparr>node_id = 1, node_type = DeDupNode,
             dependencies = outs 2 (map (ctx_chain p) (contexts p))\<rparr>"
  let ?aggr = "\<lparr>node_id = 0, node_type = AggregateNode, dependencies = [1]\<rparr>"
  note s = buildPlan_structure [OF built]
  have chains: "\<exists>index.
        index_of p (contexts p ! i) = Some index \<and>
        (let needData = needData_spec p (contexts p ! i) index;
             needFilter = needFilter_spec p (contexts p ! i) index;
             chain = chain_to (length plan) plan (dependencies ?dd ! i)
         in (\<not> needData \<and> \<not> needFilter \<longrightarrow>
               chain = Some [IndexScanNode, IndexOutputNode]) \<and>
            (needData \<and> \<not> needFilter \<longrightarrow>
               chain = Some [IndexScanNode,
                             if isEdge p then IndexEdgeNode else IndexVertexNode,
                             IndexOutputNode]) \<and>
            (\<not> needData \<and> needFilter \<longrightarrow>
               chain = Some [IndexScanNode, IndexFilterNode, IndexOutputNode]) \<and>
            (needData \<and> needFilter \<longrightarrow>
               chain = Some [IndexScanNode,
                             if isEdge p then IndexEdgeNode else IndexVertexNode,
                             IndexFilterNode, IndexOutputNode]))"
    if i: "i < length (contexts p)" for i
  proof -
    from s(3) i obtain index where ix: "index_of p (contexts p ! i) = Some index"
      and ch: "chain_to (length plan) plan (dependencies ?dd ! i) = Some (ctx_chain p (contexts p ! i))"
      by auto
    have c: "ctx_chain p (contexts p ! i) =
        spec_chain (isEdge p) (needData_spec p (contexts p ! i) index)
          (needFilter_spec p (contexts p ! i) index)"
      by (simp add: ctx_chain_def ix)
    show ?thesis
      unfolding Let_def ch c using ix
      by (simp add: spec_chain_def fetch_node_def)
  qed
  have "filter (\<lambda>n. node_type n = DeDupNode) plan = [?dd] \<and>
     length (dependencies ?dd) = length (contexts p) \<and>
     consumers plan (node_id ?dd) = [?aggr] \<and>
     node_type ?aggr = AggregateNode \<and>
     last plan = ?aggr \<and>
     consumers plan (node_id ?aggr) = [] \<and>
     distinct (map node_id plan)"
    using s(1,2,4,5,6,7) by simp
  with chains show "\<exists>dd aggr.
     filter (\<lambda>n. node_type n = DeDupNode) plan = [dd] \<and>
     length (dependencies dd) = length (contexts p) \<and>
     (\<forall>i<length (contexts p). \<exists>index.
        index_of p (contexts p ! i) = Some index \<and>
        (let needData = needData_spec p (contexts p ! i) index;
             needFilter = needFilter_spec p (contexts p ! i) index;
             chain = chain_to (length plan) plan (dependencies dd ! i)
         in (\<not> needData \<and> \<not> needFilter \<longrightarrow>
               chain = Some [IndexScanNode, IndexOutputNode]) \<and>
            (needData \<and> \<not> needFilter \<longrightarrow>
               chain = Some [IndexScanNode,
                             if isEdge p then IndexEdgeNode else IndexVertexNode,
                             IndexOutputNode]) \<and>
            (\<not> needData \<and> needFilter \<longrightarrow>
               chain = Some [IndexScanNode, IndexFilterNode, IndexOutputNode]) \<and>
            (needData \<and> needFilter \<longrightarrow>
               chain = Some [IndexScanNode,
                             if isEdge p then IndexEdgeNode else IndexVertexNode,
                             IndexFilterNode, IndexOutputNode]))) \<and>
     consumers plan (node_id dd) = [aggr] \<and>
     node_type aggr = AggregateNode \<and>
     last plan = aggr \<and>
     consumers plan (node_id aggr) = [] \<and>
     distinct (map node_id plan)" by blast
qed

theorem buildPlan_chains_witness:
  "(let plan =
              [\<lparr>node_id = 2, node_type = IndexScanNode, dependencies = []\<rparr>,
               \<lparr>node_id = 3, node_type = IndexFilterNode, dependencies = [2]\<rparr>,
               \<lparr>node_id = 4, node_type = IndexOutputNode, dependencies = [3]\<rparr>,
               \<lparr>node_id = 5, node_type = IndexScanNode, dependencies = []\<rparr>,
               \<lparr>node_id = 6, node_type = IndexOutputNode, dependencies = [5]\<rparr>,
               \<lparr>node_id = 1, node_type = DeDupNode, dependencies = [4, 6]\<rparr>,
               \<lparr>node_id = 0, node_type = AggregateNode, dependencies = [1]\<rparr>]
    in buildPlan
     \<lparr>isEdge = False, getEdgeIndex = (\<lambda>i. None),
      getTagIndex = (\<lambda>i. if i = 7 then Some \<lparr>index_name = ''i1'',
          get_fields = [\<lparr>name = ''c1'', nullable = False\<rparr>, \<lparr>name = ''c2'', nullable = False\<rparr>]\<rparr>
        else None),
      schemas_empty = False, yieldCols = [''c1'', ''c2''],
      contexts = [\<lparr>index_id = 7, column_hints = [], ctx_filter = Some ''c1 > 1''\<rparr>,
                  \<lparr>index_id = 7, column_hints = [''c1''], ctx_filter = None\<rparr>],
      decode = (\<lambda>f. RelationalExpression kRelGT (PropertyExpression kTagProperty ''c1'')
                       (OtherExpression []))\<rparr> = Inr plan \<and>
       (\<exists>dd aggr.
          filter (\<lambda>n. node_type n = DeDupNode) plan = [dd] \<and>
          dependencies dd = [4, 6] \<and>
          chain_to (length plan) plan 4 = Some [IndexScanNode, IndexFilterNode, IndexOutputNode] \<and>
          chain_to (length plan) plan 6 = Some [IndexScanNode, IndexOutputNode] \<and>
          consumers plan (node_id dd) = [aggr] \<and>
          node_type aggr = AggregateNode \<and> last plan = aggr)) \<and>
   (let plan =
              [\<lparr>node_id = 2, node_type = IndexScanNode, dependencies = []\<rparr>,
               \<lparr>node_id = 3, node_type = IndexVertexNode, dependencies = [2]\<rparr>,
               \<lparr>node_id = 4, node_type = IndexOutputNode, dependencies = [3]\<rparr>,
               \<lparr>node_id = 5, node_type = IndexScanNode, dependencies = []\<rparr>,
               \<lparr>node_id = 6, node_type = IndexVertexNode, dependencies = [5]\<rparr>,
               \<lparr>node_id = 7, node_type = IndexFilterNode, dependencies = [6]\<rparr>,
               \<lparr>node_id = 8, node_type = IndexOutputNode, dependencies = [7]\<rparr>,
               \<lparr>node_id = 1, node_type = DeDupNode, dependencies = [4, 8]\<rparr>,
               \<lparr>node_id = 0, node_type = AggregateNode, dependencies = [1]\<rparr>]
    in buildPlan
     \<lparr>isEdge = False, getEdgeIndex = (\<lambda>i. None),
      getTagIndex = (\<lambda>i. if i = 7 then Some \<lparr>index_name = ''i1'',
          get_fields = [\<lparr>name = ''c1'', nullable = False\<rparr>, \<lparr>name = ''c2'', nullable = False\<rparr>]\<rparr>
        else None),
      schemas_empty = False, yieldCols = [''c3''],
      contexts = [\<lparr>index_id = 7, column_hints = [''c1''], ctx_filter = None\<rparr>,
                  \<lparr>index_id = 7, column_hints = [], ctx_filter = Some ''c3 > 1''\<rparr>],
      decode = (\<lambda>f. RelationalExpression kRelGT (PropertyExpression kTagProperty ''c3'')
                       (OtherExpression []))\<rparr> = Inr plan \<and>
       (\<exists>dd aggr.
          filter (\<lambda>n. node_type n = DeDupNode) plan = [dd] \<and>
          dependencies dd = [4, 8] \<and>
          chain_to (length plan) plan 4 = Some [IndexScanNode, IndexVertexNode, IndexOutputNode] \<and>
          chain_to (length plan) plan 8 = Some [IndexScanNode, IndexVertexNode, IndexFilterNode, IndexOutputNode] \<and>
          consumers plan (node_id dd) = [aggr] \<and>
          node_type aggr = AggregateNode \<and> last plan = aggr)) \<and>
   (let plan =
              [\<lparr>node_id = 2, node_type = IndexScanNode, dependencies = []\<rparr>,
               \<lparr>node_id = 3, node_type = IndexEdgeNode, dependencies = [2]\<rparr>,
               \<lparr>node_id = 4, node_type = IndexOutputNode, dependencies = [3]\<rparr>,
               \<lparr>node_id = 5, node_type = IndexScanNode, dependencies = []\<rparr>,
               \<lparr>node_id = 6, node_type = IndexEdgeNode, dependencies = [5]\<rparr>,
               \<lparr>node_id = 7, node_type = IndexFilterNode, dependencies = [6]\<rparr>,
               \<lparr>node_id = 8, node_type = IndexOutputNode, dependencies = [7]\<rparr>,
               \<lparr>node_id = 1, node_type = DeDupNode, dependencies = [4, 8]\<rparr>,
               \<lparr>node_id = 0, node_type = AggregateNode, dependencies = [1]\<rparr>]
    in buildPlan
     \<lparr>isEdge = True, getEdgeIndex = (\<lambda>i. if i = 9 then Some \<lparr>index_name = ''e1'',
          get_fields = [\<lparr>name = ''c1'', nullable = True\<rparr>]\<rparr>
        else None),
      getTagIndex = (\<lambda>i. None),
      schemas_empty = False, yieldCols = [''_src'', ''c2''],
      contexts = [\<lparr>index_id = 9, column_hints = [''c1''], ctx_filter = None\<rparr>,
                  \<lparr>index_id = 9, column_hints = [], ctx_filter = Some ''c2 > 1''\<rparr>],
      decode = (\<lambda>f. RelationalExpression kRelGT (PropertyExpression kEdgeProperty ''c2'')
                       (OtherExpression []))\<rparr> = Inr plan \<and>
       (\<exists>dd aggr.
          filter (\<lambda>n. node_type n = DeDupNode) plan = [dd] \<and>
          dependencies dd = [4, 8] \<and>
          chain_to (length plan) plan 4 = Some [IndexScanNode, IndexEdgeNode, IndexOutputNode] \<and>
          chain_to (length plan) plan 8 = Some [IndexScanNode, IndexEdgeNode, IndexFilterNode, IndexOutputNode] \<and>
          consumers plan (node_id dd) = [aggr] \<and>
          node_type aggr = AggregateNode \<and> last plan = aggr)) \<and>
   buildPlan
     \<lparr>isEdge = False, getEdgeIndex = (\<lambda>i. None),
      getTagIndex = (\<lambda>i. if i = 7 then Some \<lparr>index_name = ''i1'',
          get_fields = [\<lparr>name = ''c1'', nullable = False\<rparr>, \<lparr>name = ''c2'', nullable = False\<rparr>]\<rparr>
        else None),
      schemas_empty = True, yieldCols = [''c3''],
      contexts = [\<lparr>index_id = 7, column_hints = [''c1''], ctx_filter = None\<rparr>,
                  \<lparr>index_id = 7, column_hints = [], ctx_filter = Some ''c3 > 1''\<rparr>],
      decode = (\<lambda>f. RelationalExpression kRelGT (PropertyExpression kTagProperty ''c3'')
                       (OtherExpression []))\<rparr> = Inl (Error ''Schema not found'')"
proof -
  note defs = buildPlan_def buildPlan_ctx_def has_filter_def get_filter_def propsInKey_def
        propsInEdgeKey_def kVid_def kTag_def kSrc_def kType_def kRank_def kDst_def
        buildPlanBasic_def buildPlanWithData_def buildPlanWithFilter_def
        buildPlanWithDataAndFilter_def make_unique_def addDependency_def
  note evals = index_of_def needData_spec_def needFilter_spec_def outside_spec_def
        propsInEdgeKey_def kVid_def kTag_def kSrc_def kType_def kRank_def kDst_def
  let ?p1 = "\<lparr>isEdge = False, getEdgeIndex = (\<lambda>i. None),
      getTagIndex = (\<lambda>i. if i = 7 then Some \<lparr>index_name = ''i1'',
          get_fields = [\<lparr>name = ''c1'', nullable = False\<rparr>, \<lparr>name = ''c2'', nullable = False\<rparr>]\<rparr>
        else None),
      schemas_empty = False, yieldCols = [''c1'', ''c2''],
      contexts = [\<lparr>index_id = 7, column_hints = [], ctx_filter = Some ''c1 > 1''\<rparr>,
                  \<lparr>index_id = 7, column_hints = [''c1''], ctx_filter = None\<rparr>],
      decode = (\<lambda>f. RelationalExpression kRelGT (PropertyExpression kTagProperty ''c1'')
                       (OtherExpression []))\<rparr>"
  let ?plan1 = "[\<lparr>node_id = 2, node_type = IndexScanNode, dependencies = []\<rparr>,
          \<lparr>node_id = 3, node_type = IndexFilterNode, dependencies = [2]\<rparr>,
          \<lparr>node_id = 4, node_type = IndexOutputNode, dependencies = [3]\<rparr>,
          \<lparr>node_id = 5, node_type = IndexScanNode, dependencies = []\<rparr>,
          \<lparr>node_id = 6, node_type = IndexOutputNode, dependencies = [5]\<rparr>,
          \<lparr>node_id = 1, node_type = DeDupNode, dependencies = [4, 6]\<rparr>,
          \<lparr>node_id = 0, node_type = AggregateNode, dependencies = [1]\<rparr>]"
  have ok1: "\<exists>plan. buildPlan ?p1 = Inr plan"
    using buildPlan_chains [of ?p1, THEN conjunct1]
    by (simp add: index_of_def needData_spec_def needFilter_spec_def outside_spec_def)
  have run1: "buildPlan ?p1 = Inr ?plan1"
    using ok1 by (simp add: defs)
  from buildPlan_chains [of ?p1 ?plan1, THEN conjunct2, THEN mp, OF run1]
  obtain dd aggr where
    f1: "filter (\<lambda>n. node_type n = DeDupNode) ?plan1 = [dd]"
    and f2: "\<forall>i<length (contexts ?p1). \<exists>index.
        index_of ?p1 (contexts ?p1 ! i) = Some index \<and>
        (let needData = needData_spec ?p1 (contexts ?p1 ! i) index;
             needFilter = needFilter_spec ?p1 (contexts ?p1 ! i) index;
             chain = chain_to (length ?plan1) ?plan1 (dependencies dd ! i)
         in (\<not> needData \<and> \<not> needFilter \<longrightarrow>
               chain = Some [IndexScanNode, IndexOutputNode]) \<and>
            (needData \<and> \<not> needFilter \<longrightarrow>
               chain = Some [IndexScanNode,
                             if isEdge ?p1 then IndexEdgeNode else IndexVertexNode,
                             IndexOutputNode]) \<and>
            (\<not> needData \<and> needFilter \<longrightarrow>
               chain = Some [IndexScanNode, IndexFilterNode, IndexOutputNode]) \<and>
            (needData \<and> needFilter \<longrightarrow>
               chain = Some [IndexScanNode,
                             if isEdge ?p1 then IndexEdgeNode else IndexVertexNode,
                             IndexFilterNode, IndexOutputNode]))"
    and f3: "consumers ?plan1 (node_id dd) = [aggr]"
    and f4: "node_type aggr = AggregateNode"
    and f5: "last ?plan1 = aggr"
    by blast
  from f1 have dd: "dd = \<lparr>node_id = 1, node_type = DeDupNode, dependencies = [4, 6]\<rparr>"
    by simp
  have c0: "chain_to (length ?plan1) ?plan1 4 = Some [IndexScanNode, IndexFilterNode, IndexOutputNode]"
    using f2 [rule_format, of 0] unfolding dd
    by (simp add: evals del: chain_to.simps)
  have c1: "chain_to (length ?plan1) ?plan1 6 = Some [IndexScanNode, IndexOutputNode]"
    using f2 [rule_format, of 1] unfolding dd
    by (simp add: evals del: chain_to.simps)
  have inst1: "\<exists>dd aggr.
          filter (\<lambda>n. node_type n = DeDupNode) ?plan1 = [dd] \<and>
          dependencies dd = [4, 6] \<and>
          chain_to (length ?plan1) ?plan1 4 = Some [IndexScanNode, IndexFilterNode, IndexOutputNode] \<and>
          chain_to (length ?plan1) ?plan1 6 = Some [IndexScanNode, IndexOutputNode] \<and>
          consumers ?plan1 (node_id dd) = [aggr] \<and>
          node_type aggr = AggregateNode \<and> last ?plan1 = aggr"
    using f1 f3 f4 f5 c0 c1 unfolding dd by (intro exI [of _ "\<lparr>node_id = 1, node_type = DeDupNode, dependencies = [4, 6]\<rparr>"] exI [of _ aggr]) simp
  let ?p2 = "\<lparr>isEdge = False, getEdgeIndex = (\<lambda>i. None),
      getTagIndex = (\<lambda>i. if i = 7 then Some \<lparr>index_name = ''i1'',
          get_fields = [\<lparr>name = ''c1'', nullable = False\<rparr>, \<lparr>name = ''c2'', nullable = False\<rparr>]\<rparr>
        else None),
      schemas_empty = False, yieldCols = [''c3''],
      contexts = [\<lparr>index_id = 7, column_hints = [''c1''], ctx_filter = None\<rparr>,
                  \<lparr>index_id = 7, column_hints = [], ctx_filter = Some ''c3 > 1''\<rparr>],
      decode = (\<lambda>f. RelationalExpression kRelGT (PropertyExpression kTagProperty ''c3'')
                       (OtherExpression []))\<rparr>"
  let ?plan2 = "[\<lparr>node_id = 2, node_type = IndexScanNode, dependencies = []\<rparr>,
          \<lparr>node_id = 3, node_type = IndexVertexNode, dependencies = [2]\<rparr>,
          \<lparr>node_id = 4, node_type = IndexOutputNode, dependencies = [3]\<rparr>,
          \<lparr>node_id = 5, node_type = IndexScanNode, dependencies = []\<rparr>,
          \<lparr>node_id = 6, node_type = IndexVertexNode, dependencies = [5]\<rparr>,
          \<lparr>node_id = 7, node_type = IndexFilterNode, dependencies = [6]\<rparr>,
          \<lparr>node_id = 8, node_type = IndexOutputNode, dependencies = [7]\<rparr>,
          \<lparr>node_id = 1, node_type = DeDupNode, dependencies = [4, 8]\<rparr>,
          \<lparr>node_id = 0, node_type = AggregateNode, dependencies = [1]\<rparr>]"
  have ok2: "\<exists>plan. buildPlan ?p2 = Inr plan"
    using buildPlan_chains [of ?p2, THEN conjunct1]
    by (simp add: index_of_def needData_spec_def needFilter_spec_def outside_spec_def)
  have run2: "buildPlan ?p2 = Inr ?plan2"
    using ok2 by (simp add: defs)
  from buildPlan_chains [of ?p2 ?plan2, THEN conjunct2, THEN mp, OF run2]
  obtain dd aggr where
    f1: "filter (\<lambda>n. node_type n = DeDupNode) ?plan2 = [dd]"
    and f2: "\<forall>i<length (contexts ?p2). \<exists>index.
        index_of ?p2 (contexts ?p2 ! i) = Some index \<and>
        (let needData = needData_spec ?p2 (contexts ?p2 ! i) index;
             needFilter = needFilter_spec ?p2 (contexts ?p2 ! i) index;
             chain = chain_to (length ?plan2) ?plan2 (dependencies dd ! i)
         in (\<not> needData \<and> \<not> needFilter \<longrightarrow>
               chain = Some [IndexScanNode, IndexOutputNode]) \<and>
            (needData \<and> \<not> needFilter \<longrightarrow>
               chain = Some [IndexScanNode,
                             if isEdge ?p2 then IndexEdgeNode else IndexVertexNode,
                             IndexOutputNode]) \<and>
            (\<not> needData \<and> needFilter \<longrightarrow>
               chain = Some [IndexScanNode, IndexFilterNode, IndexOutputNode]) \<and>
            (needData \<and> needFilter \<longrightarrow>
               chain = Some [IndexScanNode,
                             if isEdge ?p2 then IndexEdgeNode else IndexVertexNode,
                             IndexFilterNode, IndexOutputNode]))"
    and f3: "consumers ?plan2 (node_id dd) = [aggr]"
    and f4: "node_type aggr = AggregateNode"
    and f5: "last ?plan2 = aggr"
    by blast
  from f1 have dd: "dd = \<lparr>node_id = 1, node_type = DeDupNode, dependencies = [4, 8]\<rparr>"
    by simp
  have c0: "chain_to (length ?plan2) ?plan2 4 = Some [IndexScanNode, IndexVertexNode, IndexOutputNode]"
    using f2 [rule_format, of 0] unfolding dd
    by (simp add: evals del: chain_to.simps)
  have c1: "chain_to (length ?plan2) ?plan2 8 = Some [IndexScanNode, IndexVertexNode, IndexFilterNode, IndexOutputNode]"
    using f2 [rule_format, of 1] unfolding dd
    by (simp add: evals del: chain_to.simps)
  have inst2: "\<exists>dd aggr.
          filter (\<lambda>n. node_type n = DeDupNode) ?plan2 = [dd] \<and>
          dependencies dd = [4, 8] \<and>
          chain_to (length ?plan2) ?plan2 4 = Some [IndexScanNode, IndexVertexNode, IndexOutputNode] \<and>
          chain_to (length ?plan2) ?plan2 8 = Some [IndexScanNode, IndexVertexNode, IndexFilterNode, IndexOutputNode] \<and>
          consumers ?plan2 (node_id dd) = [aggr] \<and>
          node_type aggr = AggregateNode \<and> last ?plan2 = aggr"
    using f1 f3 f4 f5 c0 c1 unfolding dd by (intro exI [of _ "\<lparr>node_id = 1, node_type = DeDupNode, dependencies = [4, 8]\<rparr>"] exI [of _ aggr]) simp
  let ?p3 = "\<lparr>isEdge = True, getEdgeIndex = (\<lambda>i. if i = 9 then Some \<lparr>index_name = ''e1'',
          get_fields = [\<lparr>name = ''c1'', nullable = True\<rparr>]\<rparr>
        else None),
      getTagIndex = (\<lambda>i. None),
      schemas_empty = False, yieldCols = [''_src'', ''c2''],
      contexts = [\<lparr>index_id = 9, column_hints = [''c1''], ctx_filter = None\<rparr>,
                  \<lparr>index_id = 9, column_hints = [], ctx_filter = Some ''c2 > 1''\<rparr>],
      decode = (\<lambda>f. RelationalExpression kRelGT (PropertyExpression kEdgeProperty ''c2'')
                       (OtherExpression []))\<rparr>"
  let ?plan3 = "[\<lparr>node_id = 2, node_type = IndexScanNode, dependencies = []\<rparr>,
          \<lparr>node_id = 3, node_type = IndexEdgeNode, dependencies = [2]\<rparr>,
          \<lparr>node_id = 4, node_type = IndexOutputNode, dependencies = [3]\<rparr>,
          \<lparr>node_id = 5, node_type = IndexScanNode, dependencies = []\<rparr>,
          \<lparr>node_id = 6, node_type = IndexEdgeNode, dependencies = [5]\<rparr>,
          \<lparr>node_id = 7, node_type = IndexFilterNode, dependencies = [6]\<rparr>,
          \<lparr>node_id = 8, node_type = IndexOutputNode, dependencies = [7]\<rparr>,
          \<lparr>node_id = 1, node_type = DeDupNode, dependencies = [4, 8]\<rparr>,
          \<lparr>node_id = 0, node_type = AggregateNode, dependencies = [1]\<rparr>]"
  have ok3: "\<exists>plan. buildPlan ?p3 = Inr plan"
    using buildPlan_chains [of ?p3, THEN conjunct1]
    by (simp add: index_of_def needData_spec_def needFilter_spec_def outside_spec_def)
  have run3: "buildPlan ?p3 = Inr ?plan3"
    using ok3 by (simp add: defs)
  from buildPlan_chains [of ?p3 ?plan3, THEN conjunct2, THEN mp, OF run3]
  obtain dd aggr where
    f1: "filter (\<lambda>n. node_type n = DeDupNode) ?plan3 = [dd]"
    and f2: "\<forall>i<length (contexts ?p3). \<exists>index.
        index_of ?p3 (contexts ?p3 ! i) = Some index \<and>
        (let needData = needData_spec ?p3 (contexts ?p3 ! i) index;
             needFilter = needFilter_spec ?p3 (contexts ?p3 ! i) index;
             chain = chain_to (length ?plan3) ?plan3 (dependencies dd ! i)
         in (\<not> needData \<and> \<not> needFilter \<longrightarrow>
               chain = Some [IndexScanNode, IndexOutputNode]) \<and>
            (needData \<and> \<not> needFilter \<longrightarrow>
               chain = Some [IndexScanNode,
                             if isEdge ?p3 then IndexEdgeNode else IndexVertexNode,
                             IndexOutputNode]) \<and>
            (\<not> needData \<and> needFilter \<longrightarrow>
               chain = Some [IndexScanNode, IndexFilterNode, IndexOutputNode]) \<and>
            (needData \<and> needFilter \<longrightarrow>
               chain = Some [IndexScanNode,
                             if isEdge ?p3 then IndexEdgeNode else IndexVertexNode,
                             IndexFilterNode, IndexOutputNode]))"
    and f3: "consumers ?plan3 (node_id dd) = [aggr]"
    and f4: "node_type aggr = AggregateNode"
    and f5: "last ?plan3 = aggr"
    by blast
  from f1 have dd: "dd = \<lparr>node_id = 1, node_type = DeDupNode, dependencies = [4, 8]\<rparr>"
    by simp
  have c0: "chain_to (length ?plan3) ?plan3 4 = Some [IndexScanNode, IndexEdgeNode, IndexOutputNode]"
    using f2 [rule_format, of 0] unfolding dd
    by (simp add: evals del: chain_to.simps)
  have c1: "chain_to (length ?plan3) ?plan3 8 = Some [IndexScanNode, IndexEdgeNode, IndexFilterNode, IndexOutputNode]"
    using f2 [rule_format, of 1] unfolding dd
    by (simp add: evals del: chain_to.simps)
  have inst3: "\<exists>dd aggr.
          filter (\<lambda>n. node_type n = DeDupNode) ?plan3 = [dd] \<and>
          dependencies dd = [4, 8] \<and>
          chain_to (length ?plan3) ?plan3 4 = Some [IndexScanNode, IndexEdgeNode, IndexOutputNode] \<and>
          chain_to (length ?plan3) ?plan3 8 = Some [IndexScanNode, IndexEdgeNode, IndexFilterNode, IndexOutputNode] \<and>
          consumers ?plan3 (node_id dd) = [aggr] \<and>
          node_type aggr = AggregateNode \<and> last ?plan3 = aggr"
    using f1 f3 f4 f5 c0 c1 unfolding dd by (intro exI [of _ "\<lparr>node_id = 1, node_type = DeDupNode, dependencies = [4, 8]\<rparr>"] exI [of _ aggr]) simp
  let ?p4 = "\<lparr>isEdge = False, getEdgeIndex = (\<lambda>i. None),
      getTagIndex = (\<lambda>i. if i = 7 then Some \<lparr>index_name = ''i1'',
          get_fields = [\<lparr>name = ''c1'', nullable = False\<rparr>, \<lparr>name = ''c2'', nullable = False\<rparr>]\<rparr>
        else None),
      schemas_empty = True, yieldCols = [''c3''],
      contexts = [\<lparr>index_id = 7, column_hints = [''c1''], ctx_filter = None\<rparr>,
                  \<lparr>index_id = 7, column_hints = [], ctx_filter = Some ''c3 > 1''\<rparr>],
      decode = (\<lambda>f. RelationalExpression kRelGT (PropertyExpression kTagProperty ''c3'')
                       (OtherExpression []))\<rparr>"
  have "\<not> (\<exists>plan. buildPlan ?p4 = Inr plan)"
    using buildPlan_chains [of ?p4, THEN conjunct1]
    by (simp add: evals)
  then have run4: "buildPlan ?p4 = Inl (Error ''Schema not found'')"
    by (simp add: defs)
  from run1 inst1 run2 inst2 run3 inst3 run4 show ?thesis
    unfolding Let_def by (intro conjI)
qed
end
